(* ===== verification/Prelude.thy ===== *)
theory Prelude
  imports Main "HOL-Library.Word" "HOL-Library.Signed_Division" "HOL-Library.AList"
    "HOL-Library.Char_ord" "HOL-Library.List_Lexorder"
begin

text \<open>
  Shared vocabulary of the Haribon development: the types every component uses, the outcome type
  that separates a returned error from a run-time panic, Go's integer conversions and remainder,
  decimal printing, the string helpers of the standard library the sources call, and the generic
  lemmas about maps and lists that carry the component proofs.

  \<^item> A Go \<open>string\<close> is a \<^typ>\<open>string\<close> of bytes.
  \<^item> \<open>int\<close> and \<open>int64\<close> values that the code only compares and counts are \<^typ>\<open>int\<close>; the ones whose
    width the code depends on (round-robin counters, gossip terms, MessagePack integers) are words.
  \<^item> A Go map is a partial function \<^typ>\<open>'k \<rightharpoonup> 'v\<close>, or an association list with distinct keys where
    the code iterates over it and the result depends on all its entries.
  \<^item> A point in time and a duration are nanosecond counts of type \<^typ>\<open>int\<close>; a setting in seconds becomes one
    by a product that wraps at 64 bits. The clock reading is an
    argument of every operation that calls \<^verbatim>\<open>time.Now\<close> or \<^verbatim>\<open>time.Since\<close>.
\<close>

section \<open>Types\<close>

type_synonym url = string
type_synonym u64 = "64 word"
type_synonym u32 = "32 word"
type_synonym u16 = "16 word"
type_synonym byte = "8 word"
type_synonym time = int

abbreviation second :: time where
  "second \<equiv> 1000000000"

text \<open>\<^verbatim>\<open>time.Duration(n) * time.Second\<close>, a product of two 64-bit integers.\<close>

definition seconds :: "int \<Rightarrow> time" where
  "seconds n = sint (word_of_int n * word_of_int second :: u64)"

text \<open>
  A call either returns a value, returns a Go error, or panics (index out of range, nil pointer).
\<close>

datatype ('e, 'a) go = Ok 'a | Fail 'e | Panic

named_theorems pool_simps \<open>characteristic equations of the backend pools\<close>
named_theorems wf_intros \<open>preservation of well-formedness\<close>

section \<open>Go integers\<close>

text \<open>
  \<^verbatim>\<open>int(start)\<close> reinterprets the 64 bits as two's complement, so \<open>int(start) + i\<close> is \<open>sint\<close> of the
  wrapped sum; \<^verbatim>\<open>%\<close> truncates towards zero, so the remainder has the sign of the dividend.
\<close>

definition go_index :: "u64 \<Rightarrow> nat \<Rightarrow> nat \<Rightarrow> int" where
  "go_index start i n = sint (start + word_of_nat i) smod int n"

text \<open>Slice indexing: a negative or too large index panics.\<close>

definition go_nth :: "'a list \<Rightarrow> int \<Rightarrow> 'a option" where
  "go_nth xs k = (if 0 \<le> k \<and> k < int (length xs) then Some (xs ! nat k) else None)"

lemma sint_of_int_u64: "sint (word_of_int k :: u64) = signed_take_bit 63 k"
  by (simp add: sint_uint uint_word_of_int_eq signed_take_bit_take_bit min_def)

text \<open>The value of an \<open>int\<close> expression: the sum or product, wrapped at 64 bits.\<close>

definition go_int :: "int \<Rightarrow> int" where
  "go_int k = sint (word_of_int k :: u64)"

lemma go_int_small: "- (2 ^ 63) \<le> k \<Longrightarrow> k < 2 ^ 63 \<Longrightarrow> go_int k = k"
  unfolding go_int_def sint_of_int_u64 by (rule signed_take_bit_int_eq_self)

lemma go_int_le: "0 \<le> k \<Longrightarrow> go_int k \<le> k"
  unfolding go_int_def sint_of_int_u64 by (simp add: signed_take_bit_int_less_eq_self_iff)

lemma seconds_eq: "seconds n = signed_take_bit 63 (n * second)"
  unfolding seconds_def wi_hom_mult by (rule sint_of_int_u64)

lemma seconds_small:
  assumes "- 9223372036 \<le> n" "n \<le> 9223372036"
  shows "seconds n = n * second"
  unfolding seconds_eq using assms by (intro signed_take_bit_int_eq_self) auto

lemma smod_nonneg_int: "0 \<le> a \<Longrightarrow> 0 < b \<Longrightarrow> a smod b = a mod (b::int)"
  by (simp add: signed_modulo_int_def signed_divide_int_def sgn_if minus_div_mult_eq_mod
      split: if_splits)

lemma sint_eq_unat: "unat (w :: u64) < 2 ^ 63 \<Longrightarrow> sint w = int (unat w)"
proof -
  assume a: "unat w < 2 ^ 63"
  then have "uint w < 2 ^ 63"
    by (metis of_nat_less_iff of_nat_numeral of_nat_power uint_nat)
  then have "signed_take_bit 63 (uint w) = uint w"
    using uint_ge_0 [of w] by (intro signed_take_bit_int_eq_self) linarith+
  then show ?thesis
    by (simp add: sint_uint)
qed

lemma unat_u64: "unat (w :: u64) < 2 ^ 64"
proof -
  have "unat w < 2 ^ LENGTH(64)" by (rule unsigned_less)
  then show ?thesis by simp
qed

lemma uint_u64: "uint (w :: u64) < 2 ^ 64"
  using uint_bounded [of w] by simp

lemma unat_add_small:
  assumes "unat (w :: u64) + i < 2 ^ 64"
  shows "unat (w + word_of_nat i) = unat w + i"
  using assms by (simp add: unat_word_ariths unat_of_nat)

lemma go_index_small:
  assumes "unat start + i < 2 ^ 63" and "0 < n"
  shows "go_index start i n = int ((unat start + i) mod n)"
proof -
  have "unat (start + word_of_nat i) = unat start + i"
    using assms(1) by (intro unat_add_small) simp
  then have "sint (start + word_of_nat i) = int (unat start + i)"
    using assms(1) by (simp add: sint_eq_unat)
  then show ?thesis
    using assms(2) by (simp add: go_index_def smod_nonneg_int zmod_int)
qed

lemma go_nth_nat [simp]: "k < length xs \<Longrightarrow> go_nth xs (int k) = Some (xs ! k)"
  by (simp add: go_nth_def)

lemma go_nth_neg [simp]: "k < 0 \<Longrightarrow> go_nth xs k = None"
  by (simp add: go_nth_def)

lemma go_nth_index:
  assumes "unat start + i < 2 ^ 63" and "xs \<noteq> []"
  shows "go_nth xs (go_index start i (length xs)) = Some (xs ! ((unat start + i) mod length xs))"
  using assms by (simp add: go_index_small)

section \<open>Decimal printing\<close>

fun digits_of_nat :: "nat \<Rightarrow> string" where
  "digits_of_nat n =
     (if n < 10 then [char_of (48 + n)] else digits_of_nat (n div 10) @ [char_of (48 + n mod 10)])"

declare digits_of_nat.simps [simp del]

text \<open>\<^verbatim>\<open>strconv.Itoa\<close> and the verb \<open>%d\<close>.\<close>

definition itoa :: "int \<Rightarrow> string" where
  "itoa k = (if k < 0 then CHR ''-'' # digits_of_nat (nat (- k)) else digits_of_nat (nat k))"

text \<open>\<^verbatim>\<open>strconv.Atoi\<close>: an optional sign, at least one digit, and a value that fits an \<open>int64\<close>.\<close>

fun parse_digits :: "nat \<Rightarrow> string \<Rightarrow> nat option" where
  "parse_digits acc [] = Some acc"
| "parse_digits acc (c # cs) =
     (let k = (of_char c :: nat) in
      if 48 \<le> k \<and> k \<le> 57 then parse_digits (10 * acc + (k - 48)) cs else None)"

definition atoi :: "string \<Rightarrow> int option" where
  "atoi s =
     (let ds = (case s of [] \<Rightarrow> [] | c # cs \<Rightarrow> if c = CHR ''-'' \<or> c = CHR ''+'' then cs else s) in
      if ds = [] then None
      else case parse_digits 0 ds of
             None \<Rightarrow> None
           | Some n \<Rightarrow>
               let v = (if hd s = CHR ''-'' then - int n else int n) in
               if - (2 ^ 63) \<le> v \<and> v < 2 ^ 63 then Some v else None)"

lemma parse_digits_append:
  "parse_digits acc (xs @ ys) =
     (case parse_digits acc xs of None \<Rightarrow> None | Some a \<Rightarrow> parse_digits a ys)"
  by (induction acc xs rule: parse_digits.induct) (auto simp: Let_def)

lemma digit_code: "d < 10 \<Longrightarrow> (of_char (char_of (48 + d)) :: nat) = 48 + d"
  by (simp add: of_char_of)

lemma digits_of_nat_chars: "c \<in> set (digits_of_nat n) \<Longrightarrow> 48 \<le> (of_char c :: nat) \<and> (of_char c :: nat) \<le> 57"
proof (induction n rule: digits_of_nat.induct)
  case (1 n)
  have d: "n mod 10 < 10" by simp
  from 1 show ?case
    by (cases "n < 10") (auto simp: digits_of_nat.simps [of n] digit_code digit_code [OF d])
qed

lemma digits_of_nat_nonempty [simp]: "digits_of_nat n \<noteq> []"
  by (cases "n < 10") (simp_all add: digits_of_nat.simps [of n])

lemma parse_digits_of_nat: "parse_digits 0 (digits_of_nat n) = Some n"
proof (induction n rule: digits_of_nat.induct)
  case (1 n)
  have d: "n mod 10 < 10" by simp
  show ?case
  proof (cases "n < 10")
    case True
    then show ?thesis by (simp add: digits_of_nat.simps [of n] digit_code)
  next
    case False
    then show ?thesis
      using 1 by (simp add: digits_of_nat.simps [of n] parse_digits_append digit_code [OF d])
  qed
qed

lemma itoa_chars: "c \<in> set (itoa k) \<Longrightarrow> c = CHR ''-'' \<or> 48 \<le> (of_char c :: nat) \<and> (of_char c :: nat) \<le> 57"
  by (auto simp: itoa_def digits_of_nat_chars split: if_splits)

lemma hd_digits: "hd (digits_of_nat n) \<noteq> CHR ''-''" "hd (digits_of_nat n) \<noteq> CHR ''+''"
  using digits_of_nat_chars [OF hd_in_set [OF digits_of_nat_nonempty [of n]]] by auto

lemma atoi_itoa:
  assumes "- (2 ^ 63) \<le> k" and "k < 2 ^ 63"
  shows "atoi (itoa k) = Some k"
proof (cases "k < 0")
  case True
  then show ?thesis using assms by (simp add: atoi_def itoa_def parse_digits_of_nat)
next
  case False
  then obtain c cs where ds: "digits_of_nat (nat k) = c # cs" and c: "c \<noteq> CHR ''-''" "c \<noteq> CHR ''+''"
    using hd_digits [of "nat k"] by (cases "digits_of_nat (nat k)") auto
  then show ?thesis
    using False assms parse_digits_of_nat [of "nat k"] by (simp add: atoi_def itoa_def)
qed

section \<open>Strings\<close>

text \<open>\<^verbatim>\<open>strings.Split(s, ",")\<close> for a one-byte separator.\<close>

fun split_on :: "char \<Rightarrow> string \<Rightarrow> string list" where
  "split_on c [] = [[]]"
| "split_on c (x # xs) =
     (if x = c then [] # split_on c xs
      else (case split_on c xs of [] \<Rightarrow> [[x]] | y # ys \<Rightarrow> (x # y) # ys))"

lemma split_on_append: "c \<notin> set xs \<Longrightarrow> split_on c (xs @ c # ys) = xs # split_on c ys"
  by (induction xs) auto

text \<open>ASCII white space, as \<^verbatim>\<open>strings.TrimSpace\<close> treats it.\<close>

definition is_space :: "char \<Rightarrow> bool" where
  "is_space c = (let k = (of_char c :: nat) in k = 32 \<or> (9 \<le> k \<and> k \<le> 13))"

definition trim_space :: "string \<Rightarrow> string" where
  "trim_space s = rev (dropWhile is_space (rev (dropWhile is_space s)))"

text \<open>\<^verbatim>\<open>strings.Contains\<close>.\<close>

fun has_prefix :: "string \<Rightarrow> string \<Rightarrow> bool" where
  "has_prefix [] s = True"
| "has_prefix (p # ps) [] = False"
| "has_prefix (p # ps) (c # cs) = (p = c \<and> has_prefix ps cs)"

fun contains :: "string \<Rightarrow> string \<Rightarrow> bool" where
  "contains sub [] = has_prefix sub []"
| "contains sub (c # cs) = (has_prefix sub (c # cs) \<or> contains sub cs)"

text \<open>\<^verbatim>\<open>strings.Join\<close>.\<close>

fun join :: "string \<Rightarrow> string list \<Rightarrow> string" where
  "join sep [] = []"
| "join sep [x] = x"
| "join sep (x # y # ys) = x @ sep @ join sep (y # ys)"

definition upper_char :: "char \<Rightarrow> char" where
  "upper_char c =
     (let k = (of_char c :: nat) in if 97 \<le> k \<and> k \<le> 122 then char_of (k - 32) else c)"

definition lower_char :: "char \<Rightarrow> char" where
  "lower_char c =
     (let k = (of_char c :: nat) in if 65 \<le> k \<and> k \<le> 90 then char_of (k + 32) else c)"

lemma join_nonempty: "xs \<noteq> [] \<Longrightarrow> \<forall>x\<in>set xs. x \<noteq> [] \<Longrightarrow> join sep xs \<noteq> []"
  by (induction sep xs rule: join.induct) auto

lemma has_prefix_iff: "has_prefix p s \<longleftrightarrow> (\<exists>t. s = p @ t)"
  by (induction p s rule: has_prefix.induct) auto

lemma contains_iff: "contains sub s \<longleftrightarrow> (\<exists>a b. s = a @ sub @ b)"
proof (induction s)
  case Nil
  then show ?case by (simp add: has_prefix_iff)
next
  case (Cons c cs)
  show ?case
  proof
    assume "contains sub (c # cs)"
    then consider "has_prefix sub (c # cs)" | "contains sub cs" by auto
    then show "\<exists>a b. c # cs = a @ sub @ b"
    proof cases
      case 1
      then show ?thesis by (metis append_Nil has_prefix_iff)
    next
      case 2
      with Cons.IH obtain a b where "cs = a @ sub @ b" by blast
      then have "c # cs = (c # a) @ sub @ b" by simp
      then show ?thesis by blast
    qed
  next
    assume "\<exists>a b. c # cs = a @ sub @ b"
    then obtain a b where eq: "c # cs = a @ sub @ b" by blast
    show "contains sub (c # cs)"
    proof (cases a)
      case Nil
      with eq have "has_prefix sub (c # cs)" by (simp add: has_prefix_iff)
      then show ?thesis by simp
    next
      case (Cons x xs)
      with eq have "cs = xs @ sub @ b" by simp
      with Cons.IH show ?thesis by auto
    qed
  qed
qed

section \<open>Association lists\<close>

text \<open>Counting the entries of a map with distinct keys.\<close>

definition alist_count :: "('v \<Rightarrow> bool) \<Rightarrow> ('k \<times> 'v) list \<Rightarrow> nat" where
  "alist_count P m = length (filter (\<lambda>(k, v). P v) m)"

lemma alist_count_card:
  assumes "distinct (map fst m)"
  shows "alist_count P m = card {k. \<exists>v. map_of m k = Some v \<and> P v}"
proof -
  have d: "distinct (map fst (filter (\<lambda>(k, v). P v) m))"
    using assms by (rule distinct_map_filter)
  have "{k. \<exists>v. map_of m k = Some v \<and> P v} = set (map fst (filter (\<lambda>(k, v). P v) m))"
    using assms by (force simp: map_of_eq_Some_iff)
  then have "card {k. \<exists>v. map_of m k = Some v \<and> P v} = length (map fst (filter (\<lambda>(k, v). P v) m))"
    using distinct_card [OF d] by simp
  then show ?thesis
    by (simp add: alist_count_def)
qed

section \<open>Rotations of a list\<close>

text \<open>
  The order in which a rotating walk visits a pool of \<open>n\<close> entries from position \<open>k\<close>; the balancers
  and the legacy round-robin pick the first acceptable entry of this list.
\<close>

definition rotation :: "nat \<Rightarrow> 'a list \<Rightarrow> 'a list" where
  "rotation k xs = map (\<lambda>i. xs ! ((k + i) mod length xs)) [0..<length xs]"

lemma length_rotation [simp]: "length (rotation k xs) = length xs"
  by (simp add: rotation_def)

lemma rotation_nil [simp]: "rotation k [] = []"
  by (simp add: rotation_def)

lemma rotation_rotate: "rotation k xs = rotate k xs"
proof (rule nth_equalityI)
  fix i assume "i < length (rotation k xs)"
  then show "rotation k xs ! i = rotate k xs ! i"
    by (simp add: rotation_def nth_rotate)
qed simp

lemma set_rotation [simp]: "set (rotation k xs) = set xs"
  by (simp add: rotation_rotate)

lemma find_None_iff_all: "find P xs = None \<longleftrightarrow> (\<forall>x\<in>set xs. \<not> P x)"
  by (auto simp: find_None_iff)

lemma find_SomeD: "find P xs = Some x \<Longrightarrow> x \<in> set xs \<and> P x"
  by (induction xs) (auto split: if_splits)

end
