(* ===== verification/Balancer.thy ===== *)
theory Balancer
  imports Prelude "HOL-Library.Multiset"
begin

text \<open>
  The load-balancing strategies of \<^verbatim>\<open>internal/balancer/balancer.go\<close>: their state, their constructors,
  \<open>Next\<close>, \<open>NextForIP\<close>, \<open>Done\<close>, \<open>Backends\<close>, the connection counters and the factory.

  A \<open>HealthChecker\<close> is a function \<open>avail\<close> from the checker's state and a URL to a verdict and the next
  state: asking the circuit breaker whether a backend is available may move it to half-open, so the
  question itself is an effect. The locale \<open>checker\<close> states what a checker promises (refusing has no
  effect), \<open>local_checker\<close> adds that asking about one backend does not change the verdict on another.
  The locale \<open>balancer_contract\<close> is what the proxy relies on. A call to the health checker and the
  update of a counter are atomic steps; one \<open>Next\<close> is one step of the model.
\<close>

section \<open>State and operations\<close>

type_synonym 'h checker_fun = "'h \<Rightarrow> url \<Rightarrow> bool \<times> 'h"

datatype bal_error =
    ErrNoBackends
  | ErrNoHealthyBackend
  | ErrUnknownStrategy
  | ErrInvalidWeight url

record BackendEntry =
  URL :: url
  Weight :: int

subsection \<open>The rotating walk\<close>

text \<open>
  \<^verbatim>\<open>for i := 0; i < n; i++ { b := backends[index(i)]; if hc.IsAvailable(b.URL) { return b.URL } }\<close>,
  over the remaining loop indices.
\<close>

fun walk :: "'h checker_fun \<Rightarrow> BackendEntry list \<Rightarrow> (nat \<Rightarrow> int) \<Rightarrow> nat list \<Rightarrow> 'h
    \<Rightarrow> (bal_error, url) go \<times> 'h" where
  "walk avail bs ix [] h = (Fail ErrNoHealthyBackend, h)"
| "walk avail bs ix (i # is) h =
     (case go_nth bs (ix i) of
        None \<Rightarrow> (Panic, h)
      | Some b \<Rightarrow>
          (case avail h (URL b) of (ok, h') \<Rightarrow>
             if ok then (Ok (URL b), h') else walk avail bs ix is h'))"

subsection \<open>Round robin\<close>

record roundRobin =
  rr_backends :: "BackendEntry list"
  rr_counter :: u64

definition NewRoundRobin :: "BackendEntry list \<Rightarrow> (bal_error, roundRobin) go" where
  "NewRoundRobin bs =
     (if length bs = 0 then Fail ErrNoBackends
      else Ok \<lparr>rr_backends = bs, rr_counter = 0\<rparr>)"

definition roundRobin_Next :: "'h checker_fun \<Rightarrow> roundRobin \<Rightarrow> 'h
    \<Rightarrow> (bal_error, url) go \<times> roundRobin \<times> 'h" where
  "roundRobin_Next avail r h =
     (let n = length (rr_backends r);
          r' = r\<lparr>rr_counter := rr_counter r + 1\<rparr>;
          start = rr_counter r' - 1;
          (res, h') = walk avail (rr_backends r) (\<lambda>i. go_index start i n) [0..<n] h
      in (res, r', h'))"

definition roundRobin_Backends :: "roundRobin \<Rightarrow> url list" where
  "roundRobin_Backends r = map URL (rr_backends r)"

subsection \<open>Weighted round robin\<close>

record weightedRR =
  wrr_slots :: "url list"
  wrr_counter :: u64

fun expand_slots :: "BackendEntry list \<Rightarrow> url list \<Rightarrow> (bal_error, url list) go" where
  "expand_slots [] slots = Ok slots"
| "expand_slots (b # bs) slots =
     (let w = Weight b in
      if w < 0 then Fail (ErrInvalidWeight (URL b))
      else let w' = (if w = 0 then 1 else w)
           in expand_slots bs (slots @ replicate (nat w') (URL b)))"

definition NewWeightedRoundRobin :: "BackendEntry list \<Rightarrow> (bal_error, weightedRR) go" where
  "NewWeightedRoundRobin bs =
     (if length bs = 0 then Fail ErrNoBackends
      else (case expand_slots bs [] of
              Ok slots \<Rightarrow> Ok \<lparr>wrr_slots = slots, wrr_counter = 0\<rparr>
            | Fail e \<Rightarrow> Fail e
            | Panic \<Rightarrow> Panic))"

fun weighted_walk :: "'h checker_fun \<Rightarrow> url list \<Rightarrow> (nat \<Rightarrow> int) \<Rightarrow> url list \<Rightarrow> nat list \<Rightarrow> 'h
    \<Rightarrow> (bal_error, url) go \<times> 'h" where
  "weighted_walk avail slots ix seen [] h = (Fail ErrNoHealthyBackend, h)"
| "weighted_walk avail slots ix seen (i # is) h =
     (case go_nth slots (ix i) of
        None \<Rightarrow> (Panic, h)
      | Some url \<Rightarrow>
          if url \<in> set seen then weighted_walk avail slots ix seen is h
          else (case avail h url of (ok, h') \<Rightarrow>
                  if ok then (Ok url, h')
                  else weighted_walk avail slots ix (url # seen) is h'))"

definition weightedRR_Next :: "'h checker_fun \<Rightarrow> weightedRR \<Rightarrow> 'h
    \<Rightarrow> (bal_error, url) go \<times> weightedRR \<times> 'h" where
  "weightedRR_Next avail w h =
     (let n = length (wrr_slots w);
          w' = w\<lparr>wrr_counter := wrr_counter w + 1\<rparr>;
          start = wrr_counter w' - 1;
          (res, h') = weighted_walk avail (wrr_slots w) (\<lambda>i. go_index start i n) [] [0..<n] h
      in (res, w', h'))"

fun dedup_slots :: "url list \<Rightarrow> url list \<Rightarrow> url list \<Rightarrow> url list" where
  "dedup_slots [] seen out = out"
| "dedup_slots (s # ss) seen out =
     (if s \<in> set seen then dedup_slots ss seen out
      else dedup_slots ss (s # seen) (out @ [s]))"

definition weightedRR_Backends :: "weightedRR \<Rightarrow> url list" where
  "weightedRR_Backends w = dedup_slots (wrr_slots w) [] []"

subsection \<open>Least connections\<close>

record leastConn =
  lc_backends :: "BackendEntry list"
  lc_conns :: "url \<rightharpoonup> int"

fun init_conns :: "BackendEntry list \<Rightarrow> (url \<rightharpoonup> int) \<Rightarrow> (url \<rightharpoonup> int)" where
  "init_conns [] conns = conns"
| "init_conns (b # bs) conns = init_conns bs (conns(URL b \<mapsto> 0))"

definition NewLeastConnections :: "BackendEntry list \<Rightarrow> (bal_error, leastConn) go" where
  "NewLeastConnections bs =
     (if length bs = 0 then Fail ErrNoBackends
      else Ok \<lparr>lc_backends = bs, lc_conns = init_conns bs Map.empty\<rparr>)"

text \<open>The selection loop, with the loop variables \<open>best\<close> and \<open>bestCount\<close>.\<close>

fun lc_scan :: "'h checker_fun \<Rightarrow> (url \<rightharpoonup> int) \<Rightarrow> BackendEntry list \<Rightarrow> url \<Rightarrow> int \<Rightarrow> 'h
    \<Rightarrow> (bal_error, url) go \<times> 'h" where
  "lc_scan avail conns [] best bestCount h = (Ok best, h)"
| "lc_scan avail conns (b # bs) best bestCount h =
     (case avail h (URL b) of (ok, h') \<Rightarrow>
        if \<not> ok then lc_scan avail conns bs best bestCount h'
        else (case conns (URL b) of
                None \<Rightarrow> (Panic, h')
              | Some c \<Rightarrow>
                  if bestCount < 0 \<or> c < bestCount
                  then lc_scan avail conns bs (URL b) c h'
                  else lc_scan avail conns bs best bestCount h'))"

definition leastConn_Next :: "'h checker_fun \<Rightarrow> leastConn \<Rightarrow> 'h
    \<Rightarrow> (bal_error, url) go \<times> leastConn \<times> 'h" where
  "leastConn_Next avail lc h =
     (case lc_scan avail (lc_conns lc) (lc_backends lc) [] (-1) h of
        (Ok best, h') \<Rightarrow>
          if best = [] then (Fail ErrNoHealthyBackend, lc, h')
          else (case lc_conns lc best of
                  None \<Rightarrow> (Panic, lc, h')
                | Some c \<Rightarrow> (Ok best, lc\<lparr>lc_conns := (lc_conns lc)(best \<mapsto> c + 1)\<rparr>, h'))
      | (r, h') \<Rightarrow> (r, lc, h'))"

definition leastConn_Done :: "url \<Rightarrow> leastConn \<Rightarrow> leastConn" where
  "leastConn_Done backend lc =
     (case lc_conns lc backend of
        Some c \<Rightarrow> lc\<lparr>lc_conns := (lc_conns lc)(backend \<mapsto> c - 1)\<rparr>
      | None \<Rightarrow> lc)"

definition leastConn_Backends :: "leastConn \<Rightarrow> url list" where
  "leastConn_Backends lc = map URL (lc_backends lc)"

definition leastConn_ActiveConns :: "leastConn \<Rightarrow> (url \<rightharpoonup> int)" where
  "leastConn_ActiveConns lc = (\<lambda>k. lc_conns lc k)"

subsection \<open>Random\<close>

record random =
  rnd_backends :: "BackendEntry list"

definition NewRandom :: "BackendEntry list \<Rightarrow> (bal_error, random) go" where
  "NewRandom bs =
     (if length bs = 0 then Fail ErrNoBackends else Ok \<lparr>rnd_backends = bs\<rparr>)"

fun collect_healthy :: "'h checker_fun \<Rightarrow> BackendEntry list \<Rightarrow> url list \<Rightarrow> 'h \<Rightarrow> url list \<times> 'h" where
  "collect_healthy avail [] healthy h = (healthy, h)"
| "collect_healthy avail (b # bs) healthy h =
     (case avail h (URL b) of (ok, h') \<Rightarrow>
        collect_healthy avail bs (if ok then healthy @ [URL b] else healthy) h')"

text \<open>\<open>intn\<close> stands for \<^verbatim>\<open>rand.Intn\<close>: its argument is the bound, its result the number drawn.\<close>

definition random_Next :: "(nat \<Rightarrow> nat) \<Rightarrow> 'h checker_fun \<Rightarrow> random \<Rightarrow> 'h
    \<Rightarrow> (bal_error, url) go \<times> random \<times> 'h" where
  "random_Next intn avail r h =
     (case collect_healthy avail (rnd_backends r) [] h of (healthy, h') \<Rightarrow>
        if length healthy = 0 then (Fail ErrNoHealthyBackend, r, h')
        else (case go_nth healthy (int (intn (length healthy))) of
                None \<Rightarrow> (Panic, r, h')
              | Some u \<Rightarrow> (Ok u, r, h')))"

definition random_Backends :: "random \<Rightarrow> url list" where
  "random_Backends r = map URL (rnd_backends r)"

subsection \<open>IP hash\<close>

record ipHash =
  iph_backends :: "BackendEntry list"
  iph_counter :: u64

definition NewIPHash :: "BackendEntry list \<Rightarrow> (bal_error, ipHash) go" where
  "NewIPHash bs =
     (if length bs = 0 then Fail ErrNoBackends
      else Ok \<lparr>iph_backends = bs, iph_counter = 0\<rparr>)"

text \<open>\<^verbatim>\<open>fnv.New32a\<close>, \<open>Write\<close> and \<open>Sum32\<close>: the 32-bit FNV-1a hash.\<close>

fun fnv32a_write :: "u32 \<Rightarrow> string \<Rightarrow> u32" where
  "fnv32a_write hash [] = hash"
| "fnv32a_write hash (c # cs) =
     fnv32a_write (xor hash (of_char c) * 16777619) cs"

definition fnv32a :: "string \<Rightarrow> u32" where
  "fnv32a s = fnv32a_write 2166136261 s"

definition ipHash_NextForIP :: "'h checker_fun \<Rightarrow> ipHash \<Rightarrow> string \<Rightarrow> 'h
    \<Rightarrow> (bal_error, url) go \<times> 'h" where
  "ipHash_NextForIP avail i clientIP h =
     (let n = length (iph_backends i);
          m = (word_of_nat n :: u32)
      in if m = 0 then (Panic, h)
         else let start = unat (fnv32a clientIP mod m)
              in walk avail (iph_backends i) (\<lambda>j. int (start + j) smod int n) [0..<n] h)"

definition ipHash_Next :: "'h checker_fun \<Rightarrow> ipHash \<Rightarrow> 'h
    \<Rightarrow> (bal_error, url) go \<times> ipHash \<times> 'h" where
  "ipHash_Next avail i h =
     (let n = length (iph_backends i);
          i' = i\<lparr>iph_counter := iph_counter i + 1\<rparr>;
          start = iph_counter i' - 1;
          (res, h') = walk avail (iph_backends i) (\<lambda>j. go_index start j n) [0..<n] h
      in (res, i', h'))"

definition ipHash_Backends :: "ipHash \<Rightarrow> url list" where
  "ipHash_Backends i = map URL (iph_backends i)"

subsection \<open>The interface and the factory\<close>

text \<open>A value of Go's interface type \<open>Balancer\<close> is one of the five concrete types.\<close>

datatype Balancer =
    RoundRobin roundRobin
  | WeightedRR weightedRR
  | LeastConn leastConn
  | Random random
  | IPHash ipHash

definition Balancer_Next :: "(nat \<Rightarrow> nat) \<Rightarrow> 'h checker_fun \<Rightarrow> Balancer \<Rightarrow> 'h
    \<Rightarrow> (bal_error, url) go \<times> Balancer \<times> 'h" where
  "Balancer_Next intn avail bal h =
     (case bal of
        RoundRobin r \<Rightarrow> (case roundRobin_Next avail r h of (x, r', h') \<Rightarrow> (x, RoundRobin r', h'))
      | WeightedRR w \<Rightarrow> (case weightedRR_Next avail w h of (x, w', h') \<Rightarrow> (x, WeightedRR w', h'))
      | LeastConn l \<Rightarrow> (case leastConn_Next avail l h of (x, l', h') \<Rightarrow> (x, LeastConn l', h'))
      | Random r \<Rightarrow> (case random_Next intn avail r h of (x, r', h') \<Rightarrow> (x, Random r', h'))
      | IPHash i \<Rightarrow> (case ipHash_Next avail i h of (x, i', h') \<Rightarrow> (x, IPHash i', h')))"

definition Balancer_Done :: "url \<Rightarrow> Balancer \<Rightarrow> Balancer" where
  "Balancer_Done backend bal =
     (case bal of LeastConn l \<Rightarrow> LeastConn (leastConn_Done backend l) | _ \<Rightarrow> bal)"

definition Balancer_Backends :: "Balancer \<Rightarrow> url list" where
  "Balancer_Backends bal =
     (case bal of
        RoundRobin r \<Rightarrow> roundRobin_Backends r
      | WeightedRR w \<Rightarrow> weightedRR_Backends w
      | LeastConn l \<Rightarrow> leastConn_Backends l
      | Random r \<Rightarrow> random_Backends r
      | IPHash i \<Rightarrow> ipHash_Backends i)"

text \<open>The type assertion to \<open>ConnsReporter\<close> succeeds for \<open>leastConn\<close> only.\<close>

definition ConnsReporter_ActiveConns :: "Balancer \<Rightarrow> (url \<rightharpoonup> int) option" where
  "ConnsReporter_ActiveConns bal =
     (case bal of LeastConn l \<Rightarrow> Some (leastConn_ActiveConns l) | _ \<Rightarrow> None)"

definition leastConn_CarryOverConns :: "leastConn \<Rightarrow> Balancer \<Rightarrow> leastConn" where
  "leastConn_CarryOverConns lc old =
     (case ConnsReporter_ActiveConns old of
        None \<Rightarrow> lc
      | Some counts \<Rightarrow>
          lc\<lparr>lc_conns := (\<lambda>url. case lc_conns lc url of
                              None \<Rightarrow> None
                            | Some p \<Rightarrow> (case counts url of Some n \<Rightarrow> Some n | None \<Rightarrow> Some p))\<rparr>)"

text \<open>The type assertion to \<open>ConnsCarrier\<close> at the call site, then the call.\<close>

definition ConnsCarrier_CarryOverConns :: "Balancer \<Rightarrow> Balancer \<Rightarrow> Balancer" where
  "ConnsCarrier_CarryOverConns bal old =
     (case bal of LeastConn l \<Rightarrow> LeastConn (leastConn_CarryOverConns l old) | _ \<Rightarrow> bal)"

definition New_Balancer :: "string \<Rightarrow> BackendEntry list \<Rightarrow> (bal_error, Balancer) go" where
  "New_Balancer strategy bs =
     (if strategy = ''round_robin'' then map_go id RoundRobin (NewRoundRobin bs)
      else if strategy = ''weighted_round_robin'' then map_go id WeightedRR (NewWeightedRoundRobin bs)
      else if strategy = ''least_connections'' then map_go id LeastConn (NewLeastConnections bs)
      else if strategy = ''random'' then map_go id Random (NewRandom bs)
      else if strategy = ''ip_hash'' then map_go id IPHash (NewIPHash bs)
      else Fail ErrUnknownStrategy)"

section \<open>Specification vocabulary\<close>

text \<open>The verdict a checker gives on a backend, without its effect.\<close>

definition offers :: "'h checker_fun \<Rightarrow> 'h \<Rightarrow> url \<Rightarrow> bool" where
  "offers avail h u = fst (avail h u)"

text \<open>What a rotating strategy promises: the first acceptable backend in rotation order.\<close>

definition pick_first :: "'h checker_fun \<Rightarrow> url list \<Rightarrow> 'h \<Rightarrow> (bal_error, url) go \<times> 'h" where
  "pick_first avail us h =
     (case find (offers avail h) us of
        None \<Rightarrow> (Fail ErrNoHealthyBackend, h)
      | Some u \<Rightarrow> (Ok u, snd (avail h u)))"

text \<open>
  Well-formed balancers, as the factory builds them from a pool without duplicates, and balancers
  whose rotation counter has not yet reached the top half of the 64-bit range.
\<close>

fun Balancer_wf :: "Balancer \<Rightarrow> bool" where
  "Balancer_wf (RoundRobin r) = (rr_backends r \<noteq> [])"
| "Balancer_wf (WeightedRR w) = (wrr_slots w \<noteq> [])"
| "Balancer_wf (LeastConn l) =
     (lc_backends l \<noteq> [] \<and> distinct (map URL (lc_backends l)) \<and> [] \<notin> set (map URL (lc_backends l))
      \<and> dom (lc_conns l) = set (map URL (lc_backends l)))"
| "Balancer_wf (Random r) = (rnd_backends r \<noteq> [] \<and> distinct (map URL (rnd_backends r)))"
| "Balancer_wf (IPHash i) = (iph_backends i \<noteq> [] \<and> length (iph_backends i) < 2 ^ 32)"

fun Balancer_fits :: "Balancer \<Rightarrow> bool" where
  "Balancer_fits (RoundRobin r) = (unat (rr_counter r) + length (rr_backends r) < 2 ^ 63)"
| "Balancer_fits (WeightedRR w) = (unat (wrr_counter w) + length (wrr_slots w) < 2 ^ 63)"
| "Balancer_fits (LeastConn l) = True"
| "Balancer_fits (Random r) = True"
| "Balancer_fits (IPHash i) = (unat (iph_counter i) + length (iph_backends i) < 2 ^ 63)"

text \<open>Consecutive calls of \<open>Next\<close>: the list of results and the final states.\<close>

fun serve :: "('b \<Rightarrow> 'h \<Rightarrow> (bal_error, url) go \<times> 'b \<times> 'h) \<Rightarrow> nat \<Rightarrow> 'b \<Rightarrow> 'h
    \<Rightarrow> (bal_error, url) go list" where
  "serve draw 0 b h = []"
| "serve draw (Suc k) b h = (case draw b h of (r, b', h') \<Rightarrow> r # serve draw k b' h')"

text \<open>The choice of the least-connections loop among the acceptable backends, in pool order.\<close>

fun lc_best :: "(url \<rightharpoonup> int) \<Rightarrow> url list \<Rightarrow> url \<Rightarrow> int \<Rightarrow> url" where
  "lc_best conns [] best bc = best"
| "lc_best conns (u # us) best bc =
     (if bc < 0 \<or> the (conns u) < bc then lc_best conns us u (the (conns u))
      else lc_best conns us best bc)"

lemma lc_best_in: "lc_best conns us best bc \<in> insert best (set us)"
  by (induction us arbitrary: best bc) (auto split: if_splits)

lemma lc_best_start_in: "us \<noteq> [] \<Longrightarrow> lc_best conns us best (-1) \<in> set us"
  using lc_best_in [of conns "tl us" "hd us"] by (cases us) auto



section \<open>What a health checker promises\<close>

locale checker =
  fixes avail :: "'h \<Rightarrow> url \<Rightarrow> bool \<times> 'h"
  assumes refuse_pure: "avail h u = (False, h') \<Longrightarrow> h' = h"
begin

lemma refused: "\<not> offers avail h u \<Longrightarrow> avail h u = (False, h)"
  by (cases "avail h u") (auto simp: offers_def dest: refuse_pure)

lemma accepted: "offers avail h u \<Longrightarrow> avail h u = (True, snd (avail h u))"
  by (cases "avail h u") (auto simp: offers_def)

lemma walk_pick_first:
  assumes "\<And>i. i \<in> set is \<Longrightarrow> \<exists>b. go_nth bs (ix i) = Some b"
  shows "walk avail bs ix is h = pick_first avail (map (\<lambda>i. URL (the (go_nth bs (ix i)))) is) h"
  using assms
proof (induction "is")
  case Nil
  then show ?case by (simp add: pick_first_def)
next
  case (Cons i "is")
  then obtain b where b: "go_nth bs (ix i) = Some b" by fastforce
  show ?case
  proof (cases "offers avail h (URL b)")
    case True
    then show ?thesis using b accepted [OF True]
      by (auto simp: pick_first_def split: prod.splits)
  next
    case False
    then show ?thesis using b refused [OF False] Cons
      by (simp add: pick_first_def)
  qed
qed

lemma weighted_walk_eq_walk:
  assumes "\<And>u. u \<in> set seen \<Longrightarrow> \<not> offers avail h u"
  shows "weighted_walk avail slots ix seen is h
       = walk avail (map (\<lambda>u. \<lparr>URL = u, Weight = w\<rparr>) slots) ix is h"
  using assms
proof (induction "is" arbitrary: seen)
  case Nil
  then show ?case by simp
next
  case (Cons i "is")
  have nth: "go_nth (map (\<lambda>u. \<lparr>URL = u, Weight = w\<rparr>) slots) (ix i)
      = map_option (\<lambda>u. \<lparr>URL = u, Weight = w\<rparr>) (go_nth slots (ix i))"
    by (auto simp: go_nth_def)
  show ?case
  proof (cases "go_nth slots (ix i)")
    case None
    then show ?thesis by (simp add: nth)
  next
    case (Some u)
    show ?thesis
    proof (cases "offers avail h u")
      case True
      with Cons.prems have "u \<notin> set seen" by blast
      then show ?thesis using Some accepted [OF True]
        by (auto simp: nth split: prod.splits)
    next
      case False
      then have "weighted_walk avail slots ix (u # seen) is h
          = walk avail (map (\<lambda>u. \<lparr>URL = u, Weight = w\<rparr>) slots) ix is h"
        using Cons.prems by (intro Cons.IH) auto
      then show ?thesis using Some refused [OF False] Cons.IH [OF Cons.prems]
        by (simp add: nth)
    qed
  qed
qed

lemma rotating_walk:
  assumes "unat start + length bs < 2 ^ 63"
  shows "walk avail bs (\<lambda>i. go_index start i (length bs)) [0..<length bs] h
       = pick_first avail (rotation (unat start) (map URL bs)) h"
proof -
  let ?ix = "\<lambda>i. go_index start i (length bs)"
  have nth: "go_nth bs (?ix i) = Some (bs ! ((unat start + i) mod length bs))"
    if "i < length bs" for i
    using that assms by (intro go_nth_index) auto
  have lt: "(unat start + i) mod length bs < length bs" if "i < length bs" for i
    using that by (intro mod_less_divisor) linarith
  have "map (\<lambda>i. URL (the (go_nth bs (?ix i)))) [0..<length bs] = rotation (unat start) (map URL bs)"
    by (auto simp: rotation_def nth lt)
  with nth show ?thesis
    by (subst walk_pick_first) (auto simp: nth)
qed

lemma roundRobin_Next_spec:
  assumes "Balancer_fits (RoundRobin r)"
  shows "roundRobin_Next avail r h =
     (case pick_first avail (rotation (unat (rr_counter r)) (roundRobin_Backends r)) h of
        (res, h') \<Rightarrow> (res, r\<lparr>rr_counter := rr_counter r + 1\<rparr>, h'))"
  using rotating_walk [of "rr_counter r" "rr_backends r" h] assms
  by (simp add: roundRobin_Next_def roundRobin_Backends_def)

lemma weightedRR_Next_spec:
  assumes "Balancer_fits (WeightedRR w)"
  shows "weightedRR_Next avail w h =
     (case pick_first avail (rotation (unat (wrr_counter w)) (wrr_slots w)) h of
        (res, h') \<Rightarrow> (res, w\<lparr>wrr_counter := wrr_counter w + 1\<rparr>, h'))"
proof -
  let ?bs = "map (\<lambda>u. \<lparr>URL = u, Weight = 0\<rparr>) (wrr_slots w)"
  have "walk avail ?bs (\<lambda>i. go_index (wrr_counter w) i (length (wrr_slots w)))
          [0..<length (wrr_slots w)] h
      = pick_first avail (rotation (unat (wrr_counter w)) (map URL ?bs)) h"
    using rotating_walk [of "wrr_counter w" ?bs h] assms by simp
  moreover have "map URL ?bs = wrr_slots w"
    by (simp add: comp_def)
  moreover have "weighted_walk avail (wrr_slots w) ix [] is h = walk avail ?bs ix is h" for ix "is"
    by (rule weighted_walk_eq_walk) simp
  ultimately show ?thesis
    by (simp add: weightedRR_Next_def Let_def)
qed

lemma ipHash_Next_spec:
  assumes "Balancer_fits (IPHash i)"
  shows "ipHash_Next avail i h =
     (case pick_first avail (rotation (unat (iph_counter i)) (ipHash_Backends i)) h of
        (res, h') \<Rightarrow> (res, i\<lparr>iph_counter := iph_counter i + 1\<rparr>, h'))"
  using rotating_walk [of "iph_counter i" "iph_backends i" h] assms
  by (simp add: ipHash_Next_def ipHash_Backends_def)

lemma ipHash_NextForIP_spec:
  assumes "Balancer_wf (IPHash i)"
  shows "ipHash_NextForIP avail i ip h =
     pick_first avail (rotation (unat (fnv32a ip) mod length (iph_backends i)) (ipHash_Backends i)) h"
proof -
  let ?n = "length (iph_backends i)"
  let ?s = "unat (fnv32a ip) mod ?n"
  have n: "0 < ?n" "?n < 2 ^ 32" using assms by auto
  have un: "unat (word_of_nat ?n :: u32) = ?n"
    using n by (simp add: unat_of_nat)
  then have nz: "(word_of_nat ?n :: u32) \<noteq> 0"
    using n by (metis less_numeral_extra(3) unat_0)
  have st: "unat (fnv32a ip mod word_of_nat ?n) = ?s"
    by (simp add: unat_mod un)
  let ?ix = "\<lambda>j. int (?s + j) smod int ?n"
  have ix: "?ix j = int ((?s + j) mod ?n)" for j
    using n by (simp add: smod_nonneg_int zmod_int)
  have lt: "(?s + j) mod ?n < ?n" for j
    using n by simp
  have nth: "go_nth (iph_backends i) (?ix j) = Some (iph_backends i ! ((?s + j) mod ?n))" for j
    unfolding ix by (rule go_nth_nat) (rule lt)
  have "map (\<lambda>j. URL (the (go_nth (iph_backends i) (?ix j)))) [0..<?n]
      = rotation ?s (map URL (iph_backends i))"
    unfolding nth using lt by (simp add: rotation_def)
  moreover have "walk avail (iph_backends i) ?ix [0..<?n] h
      = pick_first avail (map (\<lambda>j. URL (the (go_nth (iph_backends i) (?ix j)))) [0..<?n]) h"
    by (rule walk_pick_first) (simp only: nth, blast)
  ultimately show ?thesis
    unfolding ipHash_NextForIP_def Let_def st ipHash_Backends_def using nz by simp
qed

end

text \<open>Asking about one backend does not change the verdict on another.\<close>

locale local_checker = checker +
  assumes other: "u \<noteq> v \<Longrightarrow> offers avail (snd (avail h u)) v = offers avail h v"
begin

lemma filter_after:
  "u \<notin> set us \<Longrightarrow> filter (offers avail (snd (avail h u))) us = filter (offers avail h) us"
  using other by (intro filter_cong) (metis+)

lemma collect_healthy_spec:
  assumes "distinct (map URL bs)"
  shows "fst (collect_healthy avail bs hs h) = hs @ filter (offers avail h) (map URL bs)"
  using assms
proof (induction bs arbitrary: hs h)
  case Nil
  then show ?case by simp
next
  case (Cons b bs)
  then have eq: "filter (offers avail (snd (avail h (URL b)))) (map URL bs)
      = filter (offers avail h) (map URL bs)"
    by (intro filter_after) simp
  have IH: "fst (collect_healthy avail bs hs' h') = hs' @ filter (offers avail h') (map URL bs)" for hs' h'
    using Cons by simp
  show ?case using eq
    by (cases "avail h (URL b)") (auto simp: IH offers_def [of avail h "URL b"])
qed

lemma lc_scan_spec:
  assumes "distinct (map URL bs)" and "set (map URL bs) \<subseteq> dom conns"
  shows "fst (lc_scan avail conns bs best bc h)
       = Ok (lc_best conns (filter (offers avail h) (map URL bs)) best bc)"
  using assms
proof (induction bs arbitrary: best bc h)
  case Nil
  then show ?case by simp
next
  case (Cons b bs)
  then have eq: "filter (offers avail (snd (avail h (URL b)))) (map URL bs)
      = filter (offers avail h) (map URL bs)"
    by (intro filter_after) simp
  have IH: "fst (lc_scan avail conns bs best' bc' h')
      = Ok (lc_best conns (filter (offers avail h') (map URL bs)) best' bc')" for best' bc' h'
    using Cons by simp
  obtain c where c: "conns (URL b) = Some c" using Cons.prems(2) by auto
  show ?case using eq c
    by (cases "avail h (URL b)") (simp add: IH offers_def [of avail h "URL b"])
qed

lemma leastConn_Next_spec:
  fixes l h
  defines "us \<equiv> filter (offers avail h) (leastConn_Backends l)"
  defines "best \<equiv> lc_best (lc_conns l) us [] (-1)"
  assumes wf: "Balancer_wf (LeastConn l)"
  shows "us = [] \<Longrightarrow> fst (leastConn_Next avail l h) = Fail ErrNoHealthyBackend
              \<and> fst (snd (leastConn_Next avail l h)) = l"
    and "us \<noteq> [] \<Longrightarrow> fst (leastConn_Next avail l h) = Ok best
              \<and> fst (snd (leastConn_Next avail l h))
                = l\<lparr>lc_conns := (lc_conns l)(best \<mapsto> the (lc_conns l best) + 1)\<rparr>"
proof -
  obtain h' where scan: "lc_scan avail (lc_conns l) (lc_backends l) [] (-1) h = (Ok best, h')"
    using lc_scan_spec [of "lc_backends l" "lc_conns l" "[]" "-1" h] wf
    by (cases "lc_scan avail (lc_conns l) (lc_backends l) [] (-1) h")
      (auto simp: best_def us_def leastConn_Backends_def)
  show "fst (leastConn_Next avail l h) = Fail ErrNoHealthyBackend
      \<and> fst (snd (leastConn_Next avail l h)) = l" if "us = []"
    using that scan by (simp add: leastConn_Next_def best_def)
  show "fst (leastConn_Next avail l h) = Ok best \<and> fst (snd (leastConn_Next avail l h))
      = l\<lparr>lc_conns := (lc_conns l)(best \<mapsto> the (lc_conns l best) + 1)\<rparr>" if "us \<noteq> []"
  proof -
    have "best \<in> set us" unfolding best_def using that by (rule lc_best_start_in)
    then have "best \<in> set (map URL (lc_backends l))" by (simp add: us_def leastConn_Backends_def)
    then have "best \<noteq> []" and "best \<in> dom (lc_conns l)" using wf by (metis Balancer_wf.simps(3))+
    then show ?thesis using scan by (auto simp: leastConn_Next_def)
  qed
qed

end

text \<open>\<^verbatim>\<open>rand.Intn(n)\<close> is documented to return a number in \<open>[0, n)\<close>.\<close>

locale drawing_checker = local_checker +
  fixes intn :: "nat \<Rightarrow> nat"
  assumes intn_less: "0 < n \<Longrightarrow> intn n < n"
begin

lemma random_Next_spec:
  fixes r h
  defines "us \<equiv> filter (offers avail h) (random_Backends r)"
  assumes "Balancer_wf (Random r)"
  shows "fst (random_Next intn avail r h)
       = (if us = [] then Fail ErrNoHealthyBackend else Ok (us ! intn (length us)))"
    and "fst (snd (random_Next intn avail r h)) = r"
proof -
  obtain h' where c: "collect_healthy avail (rnd_backends r) [] h = (us, h')"
    using collect_healthy_spec [of "rnd_backends r" "[]" h] assms
    by (cases "collect_healthy avail (rnd_backends r) [] h") (auto simp: random_Backends_def)
  show "fst (random_Next intn avail r h)
       = (if us = [] then Fail ErrNoHealthyBackend else Ok (us ! intn (length us)))"
    using c intn_less [of "length us"] by (auto simp: random_Next_def)
  show "fst (snd (random_Next intn avail r h)) = r"
    using c by (auto simp: random_Next_def split: option.splits)
qed

end

section \<open>What a balancer promises to the proxy\<close>

locale balancer_contract =
  fixes ready :: "'h \<Rightarrow> url \<Rightarrow> bool"
    and draw :: "'b \<Rightarrow> 'h \<Rightarrow> (bal_error, url) go \<times> 'b \<times> 'h"
    and pool :: "'b \<Rightarrow> url list"
    and wf :: "'b \<Rightarrow> bool"
    and fits :: "'b \<Rightarrow> bool"
  assumes next_ready: "wf b \<Longrightarrow> fits b \<Longrightarrow> fst (draw b h) = Ok u \<Longrightarrow> u \<in> set (pool b) \<and> ready h u"
    and next_fails: "wf b \<Longrightarrow> fits b \<Longrightarrow> fst (draw b h) = Fail e
           \<Longrightarrow> e = ErrNoHealthyBackend \<and> (\<forall>u\<in>set (pool b). \<not> ready h u)"
    and next_no_panic: "wf b \<Longrightarrow> fits b \<Longrightarrow> fst (draw b h) \<noteq> Panic"
    and next_keeps: "wf b \<Longrightarrow> fits b \<Longrightarrow> wf (fst (snd (draw b h))) \<and> pool (fst (snd (draw b h))) = pool b"
begin

lemma next_serves:
  assumes "wf b" "fits b" "u \<in> set (pool b)" "ready h u"
  shows "\<exists>v b' h'. draw b h = (Ok v, b', h') \<and> v \<in> set (pool b) \<and> ready h v \<and> wf b' \<and> pool b' = pool b"
proof (cases "fst (draw b h)")
  case (Ok v)
  with assms(1,2) have "v \<in> set (pool b) \<and> ready h v" by (rule next_ready)
  with Ok show ?thesis using next_keeps [OF assms(1,2), of h]
    by (cases "draw b h") auto
next
  case (Fail e)
  with assms(1,2) have "\<forall>u\<in>set (pool b). \<not> ready h u" by (blast dest: next_fails)
  with assms(3,4) show ?thesis by blast
next
  case Panic
  with next_no_panic [OF assms(1,2)] show ?thesis by blast
qed

lemma next_fails_iff:
  assumes "wf b" "fits b"
  shows "(\<exists>e. fst (draw b h) = Fail e) \<longleftrightarrow> (\<forall>u\<in>set (pool b). \<not> ready h u)"
proof
  assume "\<exists>e. fst (draw b h) = Fail e"
  then show "\<forall>u\<in>set (pool b). \<not> ready h u" using next_fails assms by blast
next
  assume none: "\<forall>u\<in>set (pool b). \<not> ready h u"
  show "\<exists>e. fst (draw b h) = Fail e"
  proof (cases "fst (draw b h)")
    case (Ok v)
    with next_ready [OF assms this] none show ?thesis by blast
  next
    case Panic
    with next_no_panic [OF assms] show ?thesis by blast
  qed blast
qed

end

lemma pick_first_fst:
  "fst (pick_first avail us h) = Ok u \<Longrightarrow> u \<in> set us \<and> offers avail h u"
  "fst (pick_first avail us h) = Fail e \<Longrightarrow> e = ErrNoHealthyBackend \<and> (\<forall>u\<in>set us. \<not> offers avail h u)"
  "fst (pick_first avail us h) \<noteq> Panic"
  by (auto simp: pick_first_def find_None_iff_all dest: find_SomeD split: option.splits)

lemma dedup_slots_eq:
  "set seen = set out \<Longrightarrow> set (dedup_slots ss seen out) = set out \<union> set ss"
  by (induction ss seen out rule: dedup_slots.induct) auto

lemma dedup_slots_distinct:
  "set seen = set out \<Longrightarrow> distinct out \<Longrightarrow> distinct (dedup_slots ss seen out)"
  by (induction ss seen out rule: dedup_slots.induct) auto

lemma weightedRR_Backends_set [simp]: "set (weightedRR_Backends w) = set (wrr_slots w)"
  by (simp add: weightedRR_Backends_def dedup_slots_eq)

text \<open>Every strategy of the factory keeps the contract, over any checker that keeps its own.\<close>

sublocale drawing_checker \<subseteq> balancer_contract
  "offers avail" "Balancer_Next intn avail" Balancer_Backends Balancer_wf Balancer_fits
proof
  fix b h
  assume wf: "Balancer_wf b" and fits: "Balancer_fits b"
  let ?r = "Balancer_Next intn avail b h"
  have main: "(\<forall>u. fst ?r = Ok u \<longrightarrow> u \<in> set (Balancer_Backends b) \<and> offers avail h u)
    \<and> (\<forall>e. fst ?r = Fail e \<longrightarrow> e = ErrNoHealthyBackend \<and> (\<forall>u\<in>set (Balancer_Backends b). \<not> offers avail h u))
    \<and> fst ?r \<noteq> Panic \<and> Balancer_wf (fst (snd ?r))
    \<and> Balancer_Backends (fst (snd ?r)) = Balancer_Backends b"
  proof (cases b)
    case (RoundRobin r)
    obtain x h' where p: "pick_first avail (rotation (unat (rr_counter r)) (roundRobin_Backends r)) h = (x, h')"
      by fastforce
    then show ?thesis using RoundRobin wf fits
        pick_first_fst [of avail "rotation (unat (rr_counter r)) (roundRobin_Backends r)" h]
      by (simp add: Balancer_Next_def Balancer_Backends_def roundRobin_Next_spec roundRobin_Backends_def)
  next
    case (WeightedRR w)
    obtain x h' where p: "pick_first avail (rotation (unat (wrr_counter w)) (wrr_slots w)) h = (x, h')"
      by fastforce
    then show ?thesis using WeightedRR wf fits
        pick_first_fst [of avail "rotation (unat (wrr_counter w)) (wrr_slots w)" h]
      by (simp add: Balancer_Next_def Balancer_Backends_def weightedRR_Next_spec)
        (simp add: weightedRR_Backends_def)
  next
    case (LeastConn l)
    let ?us = "filter (offers avail h) (leastConn_Backends l)"
    let ?best = "lc_best (lc_conns l) ?us [] (-1)"
    have wfl: "Balancer_wf (LeastConn l)" using wf LeastConn by simp
    obtain x l' h' where n: "leastConn_Next avail l h = (x, l', h')" by (cases "leastConn_Next avail l h")
    show ?thesis
    proof (cases "?us = []")
      case True
      then have "x = Fail ErrNoHealthyBackend" "l' = l"
        using leastConn_Next_spec(1) [OF wfl, of h] n by simp_all
      with True n LeastConn wf show ?thesis
        by (simp add: Balancer_Next_def Balancer_Backends_def filter_empty_conv)
    next
      case False
      then have x: "x = Ok ?best" "l' = l\<lparr>lc_conns := (lc_conns l)(?best \<mapsto> the (lc_conns l ?best) + 1)\<rparr>"
        using leastConn_Next_spec(2) [OF wfl, of h] n by simp_all
      have "?best \<in> set ?us" using False by (rule lc_best_start_in)
      with x n LeastConn wf show ?thesis
        by (auto simp: Balancer_Next_def Balancer_Backends_def leastConn_Backends_def insert_absorb)
    qed
  next
    case (Random r)
    let ?us = "filter (offers avail h) (random_Backends r)"
    have wfr: "Balancer_wf (Random r)" using wf Random by simp
    obtain x r' h' where n: "random_Next intn avail r h = (x, r', h')" by (cases "random_Next intn avail r h")
    have x: "x = (if ?us = [] then Fail ErrNoHealthyBackend else Ok (?us ! intn (length ?us)))" "r' = r"
      using random_Next_spec [OF wfr, of h] n by auto
    have "?us \<noteq> [] \<Longrightarrow> ?us ! intn (length ?us) \<in> set ?us" using intn_less by (intro nth_mem) simp
    with x n Random wf show ?thesis
      by (auto simp: Balancer_Next_def Balancer_Backends_def filter_empty_conv simp del: nth_mem)
  next
    case (IPHash i)
    obtain x h' where p: "pick_first avail (rotation (unat (iph_counter i)) (ipHash_Backends i)) h = (x, h')"
      by fastforce
    then show ?thesis using IPHash wf fits
        pick_first_fst [of avail "rotation (unat (iph_counter i)) (ipHash_Backends i)" h]
      by (simp add: Balancer_Next_def Balancer_Backends_def ipHash_Next_spec ipHash_Backends_def)
  qed
  show "Balancer_wf (fst (snd ?r)) \<and> Balancer_Backends (fst (snd ?r)) = Balancer_Backends b"
    and "fst ?r \<noteq> Panic"
    using main by auto
  show "u \<in> set (Balancer_Backends b) \<and> offers avail h u" if "fst ?r = Ok u" for u
    using main that by blast
  show "e = ErrNoHealthyBackend \<and> (\<forall>u\<in>set (Balancer_Backends b). \<not> offers avail h u)"
    if "fst ?r = Fail e" for e
    using main that by blast
qed

section \<open>Rotation and shares\<close>

lemma walk_first:
  assumes "go_nth bs (ix i) = Some b" and "fst (avail h (URL b))"
  shows "walk avail bs ix (i # is) h = (Ok (URL b), snd (avail h (URL b)))"
  using assms by (auto split: prod.splits)

lemma weighted_walk_first:
  assumes "go_nth slots (ix i) = Some u" and "fst (avail h u)"
  shows "weighted_walk avail slots ix [] (i # is) h = (Ok u, snd (avail h u))"
  using assms by (auto split: prod.splits)

text \<open>Consecutive picks of a rotating strategy whose every call returns the entry under the counter.\<close>

lemma serve_rotating:
  assumes step: "\<And>b h. unat (ctr b) + length us < 2 ^ 63 \<Longrightarrow> ok b
      \<Longrightarrow> \<exists>b' h'. draw b h = (Ok (us ! (unat (ctr b) mod length us)), b', h')
           \<and> ctr b' = (ctr b + 1 :: u64) \<and> ok b'"
    and "ok b" and "unat (ctr b) + k + length us < 2 ^ 63"
  shows "serve draw k b h = map (\<lambda>j. Ok (us ! ((unat (ctr b) + j) mod length us))) [0..<k]"
  using assms(2,3)
proof (induction k arbitrary: b h)
  case 0
  then show ?case by simp
next
  case (Suc k)
  then obtain b' h' where d: "draw b h = (Ok (us ! (unat (ctr b) mod length us)), b', h')"
    and c: "ctr b' = ctr b + 1" and i: "ok b'"
    using step [of b h] by auto
  have u: "unat (ctr b') = unat (ctr b) + 1"
    using Suc.prems(2) unat_add_small [of "ctr b" 1] by (simp add: c)
  have IH: "serve draw k b' h' = map (\<lambda>j. Ok (us ! ((unat (ctr b') + j) mod length us))) [0..<k]"
    using Suc.prems(2) by (intro Suc.IH i) (simp add: u)
  have "[0..<Suc k] = 0 # map Suc [0..<k]"
    by (simp add: upt_conv_Cons map_Suc_upt del: upt_Suc)
  then show ?case
    using d IH by (simp add: u comp_def del: upt_Suc)
qed

lemma roundRobin_Next_all_up:
  assumes "rr_backends r \<noteq> []" "Balancer_fits (RoundRobin r)"
    and up: "\<And>h u. u \<in> set (roundRobin_Backends r) \<Longrightarrow> fst (avail h u)"
  shows "\<exists>h'. roundRobin_Next avail r h =
     (Ok (roundRobin_Backends r ! (unat (rr_counter r) mod length (roundRobin_Backends r))),
      r\<lparr>rr_counter := rr_counter r + 1\<rparr>, h')"
proof -
  let ?n = "length (rr_backends r)" and ?c = "unat (rr_counter r)"
  have n: "0 < ?n" using assms(1) by simp
  have nth: "go_nth (rr_backends r) (go_index (rr_counter r) 0 ?n) = Some (rr_backends r ! (?c mod ?n))"
    using assms(1,2) go_nth_index [of "rr_counter r" 0 "rr_backends r"] by simp
  have up': "fst (avail h (URL (rr_backends r ! (?c mod ?n))))" for h
    using n by (intro up) (simp add: roundRobin_Backends_def)
  have "[0..<?n] = 0 # [1..<?n]" using n by (simp add: upt_conv_Cons)
  then show ?thesis
    using walk_first [where ix = "\<lambda>i. go_index (rr_counter r) i ?n" and i = 0
        and avail = avail and h = h, OF nth up'] n
    by (auto simp: roundRobin_Next_def roundRobin_Backends_def Let_def)
qed

lemma weightedRR_Next_all_up:
  assumes "wrr_slots w \<noteq> []" "Balancer_fits (WeightedRR w)"
    and up: "\<And>h u. u \<in> set (wrr_slots w) \<Longrightarrow> fst (avail h u)"
  shows "\<exists>h'. weightedRR_Next avail w h =
     (Ok (wrr_slots w ! (unat (wrr_counter w) mod length (wrr_slots w))),
      w\<lparr>wrr_counter := wrr_counter w + 1\<rparr>, h')"
proof -
  let ?n = "length (wrr_slots w)" and ?c = "unat (wrr_counter w)"
  have n: "0 < ?n" using assms(1) by simp
  have nth: "go_nth (wrr_slots w) (go_index (wrr_counter w) 0 ?n) = Some (wrr_slots w ! (?c mod ?n))"
    using assms(1,2) go_nth_index [of "wrr_counter w" 0 "wrr_slots w"] by simp
  have up': "fst (avail h (wrr_slots w ! (?c mod ?n)))" for h
    using n by (intro up) simp
  have "[0..<?n] = 0 # [1..<?n]" using n by (simp add: upt_conv_Cons)
  then show ?thesis
    using weighted_walk_first [where ix = "\<lambda>i. go_index (wrr_counter w) i ?n" and i = 0
        and avail = avail and h = h, OF nth up']
    by (auto simp: weightedRR_Next_def Let_def)
qed

text \<open>The weight the expansion gives a configured backend.\<close>

definition share :: "BackendEntry list \<Rightarrow> url \<Rightarrow> nat" where
  "share bs u = sum_list (map (\<lambda>b. if Weight b = 0 then 1 else nat (Weight b))
                            (filter (\<lambda>b. URL b = u) bs))"

lemma expand_slots_result:
  "expand_slots bs slots =
     (case find (\<lambda>b. Weight b < 0) bs of
        Some b \<Rightarrow> Fail (ErrInvalidWeight (URL b))
      | None \<Rightarrow> Ok (slots @ concat (map (\<lambda>b. replicate (if Weight b = 0 then 1 else nat (Weight b)) (URL b)) bs)))"
  by (induction bs arbitrary: slots) (auto simp: Let_def split: option.splits)

lemma count_list_append' [simp]: "count_list (xs @ ys) u = count_list xs u + count_list ys u"
  by (induction xs) auto

lemma count_list_replicate [simp]: "count_list (replicate k v) u = (if v = u then k else 0)"
  by (induction k) auto

lemma expand_slots_share: "expand_slots bs [] = Ok slots \<Longrightarrow> count_list slots u = share bs u"
proof -
  have "count_list (concat (map (\<lambda>b. replicate (if Weight b = 0 then 1 else nat (Weight b)) (URL b)) bs)) u
      = share bs u"
    by (induction bs) (auto simp: share_def)
  then show "expand_slots bs [] = Ok slots \<Longrightarrow> count_list slots u = share bs u"
    by (auto simp: expand_slots_result split: option.splits)
qed

lemma expand_slots_nonempty: "expand_slots bs [] = Ok slots \<Longrightarrow> bs \<noteq> [] \<Longrightarrow> slots \<noteq> []"
  by (cases bs) (auto simp: expand_slots_result split: option.splits if_splits)

lemma count_list_map_Ok: "count_list (map Ok xs) (Ok u) = count_list xs u"
  by (induction xs) auto

lemma count_list_mset: "count_list xs u = count (mset xs) u"
  by (induction xs) auto

lemma rotation_as_map: "map (\<lambda>j. us ! ((c + j) mod length us)) [0..<length us] = rotation c us"
  by (simp add: rotation_def)

lemma mset_rotation [simp]: "mset (rotation c us) = mset us"
  by (metis append_take_drop_id mset_append union_commute rotate_drop_take rotation_rotate)

text \<open>
  C16: round robin visits the pool in order. Over any stretch of consecutive calls while every
  backend is available, the \<open>j\<close>-th call returns the backend \<open>j\<close> places after the one under the
  counter, wrapping around the pool, and no call panics or fails.
\<close>

theorem roundRobin_rotates:
  fixes r h
  defines "us \<equiv> roundRobin_Backends r"
  assumes "rr_backends r \<noteq> []" and "unat (rr_counter r) + k + length us < 2 ^ 63"
    and "\<And>h u. u \<in> set us \<Longrightarrow> fst (avail h u)"
  shows "serve (roundRobin_Next avail) k r h
       = map (\<lambda>j. Ok (us ! ((unat (rr_counter r) + j) mod length us))) [0..<k]"
proof (rule serve_rotating [where ok = "\<lambda>q. rr_backends q = rr_backends r"])
  fix q :: roundRobin and h
  assume q: "unat (rr_counter q) + length us < 2 ^ 63" "rr_backends q = rr_backends r"
  then have "roundRobin_Backends q = us" by (simp add: us_def roundRobin_Backends_def)
  with q assms(2,4) roundRobin_Next_all_up [of q avail h]
  show "\<exists>b' h'. roundRobin_Next avail q h = (Ok (us ! (unat (rr_counter q) mod length us)), b', h')
        \<and> rr_counter b' = rr_counter q + 1 \<and> rr_backends b' = rr_backends r"
    by (fastforce simp: us_def roundRobin_Backends_def)
qed (use assms in auto)

theorem roundRobin_rotates_witness:
  "serve (roundRobin_Next (\<lambda>h u. (True, h))) 5
     \<lparr>rr_backends = [\<lparr>URL = ''a'', Weight = 0\<rparr>, \<lparr>URL = ''b'', Weight = 0\<rparr>], rr_counter = 3\<rparr> ()
   = [Ok ''b'', Ok ''a'', Ok ''b'', Ok ''a'', Ok ''b'']"
  using roundRobin_rotates [of
      "\<lparr>rr_backends = [\<lparr>URL = ''a'', Weight = 0\<rparr>, \<lparr>URL = ''b'', Weight = 0\<rparr>], rr_counter = 3\<rparr>"
      5 "\<lambda>h u. (True, h)" "()"]
  by (simp add: roundRobin_Backends_def upt_rec flip: numeral_2_eq_2)

text \<open>
  C17: the weighted split is exact. Over any stretch of as many consecutive calls as there are slots,
  starting anywhere in the rotation while every backend is available, each backend is returned
  exactly as often as its effective weight (0 counting as 1).
\<close>

theorem weightedRR_exact_share:
  fixes w h
  assumes new: "NewWeightedRoundRobin bs = Ok w"
    and "unat c + 2 * length (wrr_slots w) < 2 ^ 63"
    and up: "\<And>h u. u \<in> set (wrr_slots w) \<Longrightarrow> fst (avail h u)"
  shows "count_list (serve (weightedRR_Next avail) (length (wrr_slots w)) (w\<lparr>wrr_counter := c\<rparr>) h) (Ok u)
       = share bs u"
proof -
  let ?us = "wrr_slots w"
  have slots: "expand_slots bs [] = Ok ?us" "bs \<noteq> []"
    using new by (auto simp: NewWeightedRoundRobin_def split: go.splits if_splits)
  then have ne: "?us \<noteq> []" by (rule expand_slots_nonempty)
  have step: "\<exists>b' h'. weightedRR_Next avail q h = (Ok (?us ! (unat (wrr_counter q) mod length ?us)), b', h')
        \<and> wrr_counter b' = wrr_counter q + 1 \<and> wrr_slots b' = ?us"
    if "unat (wrr_counter q) + length ?us < 2 ^ 63" "wrr_slots q = ?us" for q :: weightedRR and h
    using that ne up weightedRR_Next_all_up [of q avail h] by fastforce
  have "serve (weightedRR_Next avail) (length ?us) (w\<lparr>wrr_counter := c\<rparr>) h
      = map (\<lambda>j. Ok (?us ! ((unat c + j) mod length ?us))) [0..<length ?us]"
    using serve_rotating [where ok = "\<lambda>q. wrr_slots q = ?us" and ctr = wrr_counter and us = ?us
        and b = "w\<lparr>wrr_counter := c\<rparr>" and k = "length ?us" and draw = "weightedRR_Next avail"]
      step assms(2) by simp
  also have "\<dots> = map Ok (rotation (unat c) ?us)"
    by (simp add: rotation_def)
  finally have "count_list (serve (weightedRR_Next avail) (length ?us) (w\<lparr>wrr_counter := c\<rparr>) h) (Ok u)
      = count_list (rotation (unat c) ?us) u"
    by (simp only: count_list_map_Ok)
  also have "\<dots> = count_list ?us u"
    by (simp add: count_list_mset)
  finally show ?thesis
    using expand_slots_share [OF slots(1)] by simp
qed

theorem weightedRR_exact_share_witness:
  "count_list (serve (weightedRR_Next (\<lambda>h u. (True, h))) (length [''a'', ''a'', ''a'', ''b''])
     \<lparr>wrr_slots = [''a'', ''a'', ''a'', ''b''], wrr_counter = 6\<rparr> ()) (Ok ''a'') = 3"
  using weightedRR_exact_share [of
      "[\<lparr>URL = ''a'', Weight = 3\<rparr>, \<lparr>URL = ''b'', Weight = 0\<rparr>]"
      "\<lparr>wrr_slots = [''a'', ''a'', ''a'', ''b''], wrr_counter = 0\<rparr>" 6 "\<lambda>h u. (True, h)" "()" "''a''"]
  by (simp add: NewWeightedRoundRobin_def share_def Let_def numeral_3_eq_3 del: serve.simps)

section \<open>The factory\<close>

definition strategies :: "string list" where
  "strategies = [''round_robin'', ''weighted_round_robin'', ''least_connections'', ''random'', ''ip_hash'']"

lemma dedup_replicate_seen: "u \<in> set seen \<Longrightarrow> dedup_slots (replicate k u @ ss) seen out = dedup_slots ss seen out"
  by (induction k) auto

lemma dedup_replicate_new:
  "u \<notin> set seen \<Longrightarrow> 0 < k \<Longrightarrow> dedup_slots (replicate k u @ ss) seen out = dedup_slots ss (u # seen) (out @ [u])"
  by (cases k) (auto simp: dedup_replicate_seen)

lemma dedup_expanded:
  assumes "distinct (map URL bs)" and "set (map URL bs) \<inter> set seen = {}" and "\<And>b. b \<in> set bs \<Longrightarrow> 0 < k b"
  shows "dedup_slots (concat (map (\<lambda>b. replicate (k b) (URL b)) bs)) seen out = out @ map URL bs"
  using assms
proof (induction bs arbitrary: seen out)
  case Nil
  then show ?case by simp
next
  case (Cons b bs)
  then show ?case by (simp add: dedup_replicate_new)
qed

lemma init_conns_apply: "init_conns bs m u = (if u \<in> set (map URL bs) then Some 0 else m u)"
  by (induction bs arbitrary: m) auto

lemma map_go_Ok: "(\<exists>y. map_go f g x = Ok y) \<longleftrightarrow> (\<exists>y. x = Ok y)"
  by (cases x) auto

lemma map_go_Panic: "map_go f g x = Panic \<longleftrightarrow> x = Panic"
  by (cases x) auto

lemma New_Balancer_iff:
  "(\<exists>b. New_Balancer s bs = Ok b) \<longleftrightarrow>
     s \<in> set strategies \<and> bs \<noteq> [] \<and> (s = ''weighted_round_robin'' \<longrightarrow> (\<forall>b\<in>set bs. 0 \<le> Weight b))"
proof -
  have w: "(\<exists>w. NewWeightedRoundRobin bs = Ok w) \<longleftrightarrow> bs \<noteq> [] \<and> (\<forall>b\<in>set bs. 0 \<le> Weight b)"
  proof (cases "find (\<lambda>b. Weight b < 0) bs")
    case None
    then have "\<forall>b\<in>set bs. 0 \<le> Weight b" by (auto simp: find_None_iff_all not_less)
    with None show ?thesis by (simp add: NewWeightedRoundRobin_def expand_slots_result)
  next
    case (Some b)
    then have "b \<in> set bs" "Weight b < 0" by (auto dest: find_SomeD)
    then have "\<not> (\<forall>b\<in>set bs. 0 \<le> Weight b)" by force
    with Some show ?thesis by (simp add: NewWeightedRoundRobin_def expand_slots_result)
  qed
  show ?thesis
    unfolding New_Balancer_def strategies_def
    by (simp add: map_go_Ok w NewRoundRobin_def NewLeastConnections_def NewRandom_def NewIPHash_def)
qed

lemma New_Balancer_never_panics: "New_Balancer s bs \<noteq> Panic"
proof -
  have "NewWeightedRoundRobin bs \<noteq> Panic"
    by (auto simp: NewWeightedRoundRobin_def expand_slots_result split: go.splits option.splits)
  then show ?thesis
    by (simp add: New_Balancer_def map_go_Panic NewRoundRobin_def NewLeastConnections_def NewRandom_def NewIPHash_def)
qed

lemma New_Balancer_wf:
  assumes new: "New_Balancer s bs = Ok b"
    and d: "distinct (map URL bs)" and ne: "[] \<notin> set (map URL bs)" and len: "length bs < 2 ^ 32"
  shows "Balancer_wf b \<and> Balancer_Backends b = map URL bs"
proof -
  have bs: "bs \<noteq> []" using new New_Balancer_iff by blast
  have w: "wrr_slots w \<noteq> [] \<and> weightedRR_Backends w = map URL bs"
    if n: "NewWeightedRoundRobin bs = Ok w" for w
  proof -
    have e: "expand_slots bs [] = Ok (wrr_slots w)"
      using n by (auto simp: NewWeightedRoundRobin_def split: go.splits if_splits)
    then have none: "find (\<lambda>b. Weight b < 0) bs = None"
      and sl: "wrr_slots w = concat (map (\<lambda>b. replicate (if Weight b = 0 then 1 else nat (Weight b)) (URL b)) bs)"
      by (auto simp: expand_slots_result split: option.splits)
    have "0 < (if Weight b = 0 then 1 else nat (Weight b))" if "b \<in> set bs" for b
      using none that by (auto simp: find_None_iff_all)
    then have "weightedRR_Backends w = map URL bs"
      unfolding weightedRR_Backends_def sl using d by (subst dedup_expanded) auto
    with expand_slots_nonempty [OF e bs] show ?thesis by simp
  qed
  have wb: "\<exists>w. NewWeightedRoundRobin bs = Ok w \<and> b = WeightedRR w"
    if "map_go id WeightedRR (NewWeightedRoundRobin bs) = Ok b"
    using that by (cases "NewWeightedRoundRobin bs") auto
  show ?thesis
    using new bs d ne len w
    by (auto dest!: wb simp: New_Balancer_def  NewRoundRobin_def NewLeastConnections_def NewRandom_def
        NewIPHash_def Balancer_Backends_def roundRobin_Backends_def leastConn_Backends_def
        random_Backends_def ipHash_Backends_def init_conns_apply dom_def
        split: if_splits go.splits)
qed

text \<open>
  C18: the factory accepts exactly the five strategy names on a non-empty pool, and for the weighted
  strategy only without negative weights; whatever it builds from a pool without duplicate or empty
  URLs is well formed and routes over exactly that pool, in that order.
\<close>

theorem New_Balancer_correct:
  assumes "distinct (map URL bs)" and "[] \<notin> set (map URL bs)" and "length bs < 2 ^ 32"
  shows "((\<exists>b. New_Balancer s bs = Ok b) \<longleftrightarrow>
       s \<in> set strategies \<and> bs \<noteq> [] \<and> (s = ''weighted_round_robin'' \<longrightarrow> (\<forall>b\<in>set bs. 0 \<le> Weight b)))
     \<and> (\<forall>b. New_Balancer s bs = Ok b \<longrightarrow> Balancer_wf b \<and> Balancer_Backends b = map URL bs)"
  using New_Balancer_iff [of s bs] New_Balancer_wf [OF _ assms] by blast

theorem New_Balancer_correct_witness:
  "\<exists>b. New_Balancer ''weighted_round_robin'' [\<lparr>URL = ''a'', Weight = 2\<rparr>, \<lparr>URL = ''b'', Weight = 0\<rparr>] = Ok b
     \<and> Balancer_wf b \<and> Balancer_Backends b = [''a'', ''b'']"
proof -
  let ?bs = "[\<lparr>URL = ''a'', Weight = 2\<rparr>, \<lparr>URL = ''b'', Weight = 0\<rparr>]"
  have h: "distinct (map URL ?bs)" "[] \<notin> set (map URL ?bs)" "length ?bs < 2 ^ 32"
    by simp_all
  show ?thesis
    using New_Balancer_correct [OF h, of "''weighted_round_robin''"] by (auto simp: strategies_def)
qed

section \<open>Session affinity\<close>

text \<open>
  C19: a client is pinned. While the pool is unchanged, \<open>NextForIP\<close> returns the first acceptable
  backend in pool order from the position the FNV-1a hash of the address selects, whatever requests
  came before; in particular it returns the hashed backend itself whenever that one is available,
  and it fails only when no backend of the pool is.
\<close>

theorem ipHash_pins_client:
  assumes "checker avail" and "Balancer_wf (IPHash i)"
  shows "fst (ipHash_NextForIP avail i ip h)
       = (case find (offers avail h)
                 (rotation (unat (fnv32a ip) mod length (iph_backends i)) (ipHash_Backends i)) of
            Some u \<Rightarrow> Ok u | None \<Rightarrow> Fail ErrNoHealthyBackend)
     \<and> (offers avail h (ipHash_Backends i ! (unat (fnv32a ip) mod length (iph_backends i)))
          \<longrightarrow> fst (ipHash_NextForIP avail i ip h)
              = Ok (ipHash_Backends i ! (unat (fnv32a ip) mod length (iph_backends i))))"
proof -
  let ?s = "unat (fnv32a ip) mod length (iph_backends i)"
  have n: "0 < length (ipHash_Backends i)" using assms(2) by (simp add: ipHash_Backends_def)
  have r: "rotation ?s (ipHash_Backends i)
      = (ipHash_Backends i ! ?s) # map (\<lambda>j. ipHash_Backends i ! ((?s + j) mod length (ipHash_Backends i)))
          [1..<length (ipHash_Backends i)]"
    using n by (simp add: rotation_def upt_conv_Cons ipHash_Backends_def)
  show ?thesis
    unfolding checker.ipHash_NextForIP_spec [OF assms(1,2)] pick_first_def r
    by (auto split: option.splits)
qed

theorem ipHash_pins_client_witness:
  "fst (ipHash_NextForIP (\<lambda>h u. (True, h))
      \<lparr>iph_backends = [\<lparr>URL = ''a'', Weight = 0\<rparr>, \<lparr>URL = ''b'', Weight = 0\<rparr>], iph_counter = 0\<rparr> ''10.0.0.1'' ())
   = Ok ([''a'', ''b''] ! (unat (fnv32a ''10.0.0.1'') mod 2))"
proof -
  let ?i = "\<lparr>iph_backends = [\<lparr>URL = ''a'', Weight = 0\<rparr>, \<lparr>URL = ''b'', Weight = 0\<rparr>], iph_counter = 0\<rparr>"
  have c: "checker (\<lambda>h u. (True, h))" by unfold_locales simp
  have w: "Balancer_wf (IPHash ?i)" by simp
  show ?thesis
    using ipHash_pins_client [OF c w, of "''10.0.0.1''" "()"]
    by (auto simp: offers_def ipHash_Backends_def simp flip: numeral_2_eq_2)
qed

section \<open>Least connections counts the requests in flight\<close>








text \<open>
  A counter below zero starves a backend. A request that started before a reload switched the
  strategy to least connections (or before a reload re-added its backend) is finished on a counter
  that never counted it. From then on the loop's sentinel test \<open>bestCount < 0\<close> discards that backend
  whenever a later one is available: every following request goes to the other backend, however
  many are in flight there.
\<close>

theorem leastConn_starves:
  assumes "a \<noteq> b" "a \<noteq> []" "b \<noteq> []"
    and "NewLeastConnections [\<lparr>URL = a, Weight = x\<rparr>, \<lparr>URL = b, Weight = y\<rparr>] = Ok l"
  shows "serve (leastConn_Next (\<lambda>h u. (True, h))) k (leastConn_Done a l) h = replicate k (Ok b)"
proof -
  have step: "serve (leastConn_Next (\<lambda>h u. (True, h))) k
      (l\<lparr>lc_conns := [a \<mapsto> -1, b \<mapsto> c]\<rparr>) h = replicate k (Ok b)" if "0 \<le> c" for c
    using that
  proof (induction k arbitrary: c)
    case 0
    then show ?case by simp
  next
    case (Suc k)
    have "lc_backends l = [\<lparr>URL = a, Weight = x\<rparr>, \<lparr>URL = b, Weight = y\<rparr>]"
      using assms(4) by (auto simp: NewLeastConnections_def)
    then have eq: "leastConn_Next (\<lambda>h u. (True, h)) (l\<lparr>lc_conns := [a \<mapsto> -1, b \<mapsto> c]\<rparr>) h
        = (Ok b, l\<lparr>lc_conns := [a \<mapsto> -1, b \<mapsto> c + 1]\<rparr>, h)"
      using assms(1-3) by (simp add: leastConn_Next_def)
    have "serve (leastConn_Next (\<lambda>h u. (True, h))) k (l\<lparr>lc_conns := [a \<mapsto> -1, b \<mapsto> c + 1]\<rparr>) h
        = replicate k (Ok b)"
      using Suc.prems by (intro Suc.IH) simp
    then show ?case by (simp only: serve.simps eq prod.case replicate.simps)
  qed
  have "leastConn_Done a l = l\<lparr>lc_conns := [a \<mapsto> -1, b \<mapsto> 0]\<rparr>"
    using assms by (auto simp: NewLeastConnections_def leastConn_Done_def fun_upd_twist)
  with step [of 0] show ?thesis by simp
qed

theorem leastConn_starves_witness:
  "serve (leastConn_Next (\<lambda>h u. (True, h))) 100
     (leastConn_Done ''a'' \<lparr>lc_backends = [\<lparr>URL = ''a'', Weight = 1\<rparr>, \<lparr>URL = ''b'', Weight = 1\<rparr>],
                            lc_conns = [''a'' \<mapsto> 0, ''b'' \<mapsto> 0]\<rparr>) () = replicate 100 (Ok ''b'')"
  by (rule leastConn_starves [of _ _ 1 1]) (simp_all add: NewLeastConnections_def)

section \<open>The counter's range\<close>

lemma sint_high: "2 ^ 63 \<le> uint (w :: u64) \<Longrightarrow> sint w = uint w - 2 ^ 64"
proof -
  assume a: "2 ^ 63 \<le> uint w"
  have lt: "uint w < 2 ^ 64" by (rule uint_u64)
  have "(uint w + 2 ^ 63) mod 2 ^ 64 = (uint w + 2 ^ 63 - 2 ^ 64) mod 2 ^ 64"
    by (rule minus_mod_self2 [symmetric])
  also have "\<dots> = uint w + 2 ^ 63 - 2 ^ 64"
    using a lt by (intro mod_pos_pos_trivial) simp_all
  finally have "take_bit 64 (uint w + 2 ^ 63) = uint w + 2 ^ 63 - 2 ^ 64"
    by (simp add: take_bit_eq_mod)
  then have "signed_take_bit 63 (uint w) = uint w - 2 ^ 64"
    by (simp add: signed_take_bit_eq_take_bit_shift)
  then show ?thesis by (simp add: sint_uint)
qed

lemma smod_neg_int: "a < 0 \<Longrightarrow> 0 < b \<Longrightarrow> a smod b = - ((- a) mod (b::int))"
  by (simp add: signed_modulo_int_def signed_divide_int_def minus_mult_div_eq_mod [symmetric] algebra_simps)

text \<open>
  Past \<open>2^63\<close> requests the conversion \<open>int(start)\<close> is negative and so is its remainder, so the
  walk indexes the pool with a negative number: \<open>Next\<close> panics unless the pool size happens to divide
  the distance to \<open>2^64\<close>.
\<close>

theorem roundRobin_panics_past_2_63:
  assumes "rr_backends r \<noteq> []" and "2 ^ 63 \<le> uint (rr_counter r)"
    and "\<not> int (length (rr_backends r)) dvd 2 ^ 64 - uint (rr_counter r)"
  shows "fst (roundRobin_Next avail r h) = Panic"
proof -
  let ?n = "length (rr_backends r)" and ?c = "rr_counter r"
  have n: "0 < ?n" using assms(1) by simp
  have lt: "uint ?c < 2 ^ 64" by (rule uint_u64)
  have "sint ?c smod int ?n = - ((2 ^ 64 - uint ?c) mod int ?n)"
    using assms(2) lt n by (subst smod_neg_int) (simp_all add: sint_high)
  moreover have "0 < (2 ^ 64 - uint ?c) mod int ?n"
    using assms(3) n by (simp add: dvd_eq_mod_eq_0 order_less_le)
  ultimately have "go_index ?c 0 ?n < 0" by (simp add: go_index_def)
  moreover have "[0..<?n] = 0 # [1..<?n]" using n by (simp add: upt_conv_Cons)
  ultimately show ?thesis by (simp add: roundRobin_Next_def Let_def)
qed

theorem roundRobin_panics_past_2_63_witness:
  "fst (roundRobin_Next (\<lambda>h u. (True, h))
     \<lparr>rr_backends = replicate 3 \<lparr>URL = ''a'', Weight = 0\<rparr>, rr_counter = 9223372036854775808\<rparr> ()) = Panic"
  by (rule roundRobin_panics_past_2_63) simp_all

section \<open>What a pick does to the checker's state\<close>

text \<open>
  A rotating strategy asks until the first yes: a condition \<open>I\<close> kept by every refusal holds after a failed
  pick, and what a yes about \<open>u\<close> establishes holds after \<open>u\<close> was picked.
\<close>

definition rotating :: "Balancer \<Rightarrow> bool" where
  "rotating b = (case b of RoundRobin r \<Rightarrow> True | WeightedRR w \<Rightarrow> True | IPHash i \<Rightarrow> True | _ \<Rightarrow> False)"

definition picked_state :: "('h \<Rightarrow> bool) \<Rightarrow> (url \<Rightarrow> 'h \<Rightarrow> bool) \<Rightarrow> (bal_error, url) go \<Rightarrow> 'h \<Rightarrow> bool" where
  "picked_state I J res h = (case res of Ok u \<Rightarrow> J u h | Fail e \<Rightarrow> I h | Panic \<Rightarrow> I h)"

locale ask_state =
  fixes avail :: "'h checker_fun" and I :: "'h \<Rightarrow> bool" and J :: "url \<Rightarrow> 'h \<Rightarrow> bool"
  assumes refuse: "I h \<Longrightarrow> avail h u = (False, h') \<Longrightarrow> I h'"
    and accept: "I h \<Longrightarrow> avail h u = (True, h') \<Longrightarrow> J u h'"
begin

lemma walk_state: "I h \<Longrightarrow> walk avail bs ix is h = (res, h') \<Longrightarrow> picked_state I J res h'"
proof (induction "is" arbitrary: h)
  case (Cons i "is")
  then show ?case
    by (auto simp: picked_state_def dest: refuse accept split: option.splits prod.splits if_splits)
qed (auto simp: picked_state_def)

lemma weighted_walk_state:
  "I h \<Longrightarrow> weighted_walk avail ss ix known is h = (res, h') \<Longrightarrow> picked_state I J res h'"
proof (induction "is" arbitrary: known h)
  case (Cons i "is")
  then show ?case
    by (auto simp: picked_state_def dest: refuse accept split: option.splits prod.splits if_splits)
qed (auto simp: picked_state_def)

lemma Next_rotating_state:
  assumes "rotating b" "I h" "Balancer_Next intn avail b h = (res, b', h')"
  shows "picked_state I J res h'"
  using assms walk_state [OF assms(2)] weighted_walk_state [OF assms(2)]
  by (cases b) (fastforce simp: rotating_def Balancer_Next_def roundRobin_Next_def weightedRR_Next_def ipHash_Next_def
      Let_def split: prod.splits)+

lemma NextForIP_state:
  assumes "I h" "ipHash_NextForIP avail i ip h = (res, h')"
  shows "picked_state I J res h'"
  using assms walk_state [OF assms(1)]
  by (fastforce simp: ipHash_NextForIP_def Let_def picked_state_def split: if_splits)

end

text \<open>Every strategy keeps what every question keeps.\<close>

locale ask_kept =
  fixes avail :: "'h checker_fun" and I :: "'h \<Rightarrow> bool"
  assumes kept: "I h \<Longrightarrow> avail h u = (ok, h') \<Longrightarrow> I h'"
begin

lemma lc_scan_state: "I h \<Longrightarrow> lc_scan avail conns bs best c h = (res, h') \<Longrightarrow> I h'"
proof (induction bs arbitrary: best c h)
  case (Cons b bs)
  then show ?case by (auto dest: kept split: prod.splits option.splits if_splits)
qed simp

lemma collect_state: "I h \<Longrightarrow> collect_healthy avail bs us h = (vs, h') \<Longrightarrow> I h'"
proof (induction bs arbitrary: us h)
  case (Cons b bs)
  then show ?case by (auto dest: kept split: prod.splits)
qed simp

end

sublocale ask_kept \<subseteq> ask_state avail I "\<lambda>u. I"
  by unfold_locales (auto dest: kept)

context ask_kept
begin

lemma picked_kept: "picked_state I (\<lambda>u. I) res h = I h"
  by (simp add: picked_state_def split: go.split)

lemma Next_kept:
  assumes "I h" "Balancer_Next intn avail b h = (res, b', h')"
  shows "I h'"
proof (cases b)
  case (LeastConn l)
  then show ?thesis
    using assms lc_scan_state [OF assms(1)]
    by (auto simp: Balancer_Next_def leastConn_Next_def split: prod.splits go.splits if_splits option.splits)
next
  case (Random r)
  then show ?thesis
    using assms collect_state [OF assms(1)]
    by (auto simp: Balancer_Next_def random_Next_def split: prod.splits if_splits option.splits)
qed (use assms Next_rotating_state [of b h intn res b' h'] in \<open>simp_all add: rotating_def picked_kept\<close>)

lemma NextForIP_kept: "I h \<Longrightarrow> ipHash_NextForIP avail i ip h = (res, h') \<Longrightarrow> I h'"
  using NextForIP_state picked_kept by blast

end

text \<open>A pick keeps the balancer well-formed and its pool, whatever its outcome.\<close>

lemma lc_scan_in:
  "lc_scan avail conns bs best c h = (Ok u, h') \<Longrightarrow> u = best \<or> u \<in> set (map URL bs)"
  by (induction avail conns bs best c h rule: lc_scan.induct) (auto split: prod.splits option.splits if_splits)

lemma Balancer_Next_pool:
  assumes "Balancer_Next intn avail b h = (res, b', h')"
  shows "Balancer_Backends b' = Balancer_Backends b" "Balancer_wf b \<Longrightarrow> Balancer_wf b'"
    "rotating b' = rotating b"
proof -
  have "Balancer_Backends b' = Balancer_Backends b \<and> (Balancer_wf b \<longrightarrow> Balancer_wf b') \<and> rotating b' = rotating b"
  proof (cases b)
    case (LeastConn l)
    then show ?thesis
      using assms lc_scan_in [of avail "lc_conns l" "lc_backends l" "[]" "-1" h]
      by (auto simp: Balancer_Next_def leastConn_Next_def Balancer_Backends_def leastConn_Backends_def rotating_def
          insert_absorb split: prod.splits go.splits if_splits option.splits)
  qed (use assms in \<open>auto simp: Balancer_Next_def Balancer_Backends_def rotating_def roundRobin_Next_def
        weightedRR_Next_def random_Next_def ipHash_Next_def roundRobin_Backends_def weightedRR_Backends_def
        ipHash_Backends_def Let_def split: prod.splits if_splits option.splits\<close>)
  then show "Balancer_Backends b' = Balancer_Backends b" "Balancer_wf b \<Longrightarrow> Balancer_wf b'"
    "rotating b' = rotating b" by simp_all
qed

lemma leastConn_Done_frame [simp]:
  "lc_backends (leastConn_Done u l) = lc_backends l" "dom (lc_conns (leastConn_Done u l)) = dom (lc_conns l)"
  by (auto simp: leastConn_Done_def split: option.splits)

lemma Balancer_Done_pool [simp]:
  "Balancer_Backends (Balancer_Done u b) = Balancer_Backends b"
  "rotating (Balancer_Done u b) = rotating b"
  "Balancer_wf b \<Longrightarrow> Balancer_wf (Balancer_Done u b)"
  by (cases b; simp add: Balancer_Done_def Balancer_Backends_def leastConn_Backends_def rotating_def)+

end
