(* ===== verification/Breaker.thy ===== *)
theory Breaker
  imports Balancer
begin

text \<open>
  The per-backend circuit breaker of \<^verbatim>\<open>internal/health/breaker.go\<close>. The registry is a map from URLs to
  breakers; every method returns the new registry and the calls it made to the transition logger
  (backend, new state, reason). The clock reading is the argument \<open>now\<close>. A method holds the
  breaker's mutex throughout, so one call is one step.
\<close>

section \<open>State and operations\<close>

datatype State = StateClosed | StateOpen | StateHalfOpen

fun State_String :: "State \<Rightarrow> string" where
  "State_String StateClosed = ''closed''"
| "State_String StateOpen = ''open''"
| "State_String StateHalfOpen = ''half_open''"

record breaker =
  state :: State
  consecutiveFails :: int
  openAt :: time
  failureThreshold :: int
  cooldown :: time
  has_logger :: bool
  backend :: url

record Registry =
  breakers :: "url \<rightharpoonup> breaker"

text \<open>A call \<open>logger(backend, state, reason)\<close>.\<close>

type_synonym log_call = "url \<times> string \<times> string"

definition new_breaker :: "int \<Rightarrow> time \<Rightarrow> bool \<Rightarrow> url \<Rightarrow> breaker" where
  "new_breaker threshold cool logger url =
     \<lparr>state = StateClosed, consecutiveFails = 0, openAt = 0, failureThreshold = threshold,
      cooldown = cool, has_logger = logger, backend = url\<rparr>"

fun fill_breakers :: "url list \<Rightarrow> int \<Rightarrow> time \<Rightarrow> bool \<Rightarrow> (url \<rightharpoonup> breaker) \<Rightarrow> (url \<rightharpoonup> breaker)" where
  "fill_breakers [] threshold cool logger m = m"
| "fill_breakers (u # us) threshold cool logger m =
     fill_breakers us threshold cool logger (m(u \<mapsto> new_breaker threshold cool logger u))"

definition NewRegistry :: "url list \<Rightarrow> int \<Rightarrow> time \<Rightarrow> bool \<Rightarrow> Registry" where
  "NewRegistry backends threshold cool logger =
     \<lparr>breakers = fill_breakers backends threshold cool logger Map.empty\<rparr>"

definition transition :: "State \<Rightarrow> breaker \<Rightarrow> breaker \<times> log_call list" where
  "transition to br =
     (let from = state br; br' = br\<lparr>state := to\<rparr>
      in (br', if has_logger br \<and> from \<noteq> to
               then [(backend br, State_String to, ''transition from '' @ State_String from)] else []))"

definition Registry_IsAvailable :: "time \<Rightarrow> Registry \<Rightarrow> url \<Rightarrow> bool \<times> Registry \<times> log_call list" where
  "Registry_IsAvailable now r url =
     (case breakers r url of
        None \<Rightarrow> (True, r, [])
      | Some br \<Rightarrow>
          (case state br of
             StateClosed \<Rightarrow> (True, r, [])
           | StateOpen \<Rightarrow>
               if now - openAt br \<ge> cooldown br
               then (case transition StateHalfOpen br of (br', calls) \<Rightarrow>
                       (True, r\<lparr>breakers := (breakers r)(url \<mapsto> br')\<rparr>, calls))
               else (False, r, [])
           | StateHalfOpen \<Rightarrow> (False, r, [])))"

definition Registry_RecordSuccess :: "Registry \<Rightarrow> url \<Rightarrow> Registry \<times> log_call list" where
  "Registry_RecordSuccess r url =
     (case breakers r url of
        None \<Rightarrow> (r, [])
      | Some br \<Rightarrow>
          (case (if state br = StateHalfOpen then transition StateClosed br else (br, [])) of
             (br', calls) \<Rightarrow>
               (r\<lparr>breakers := (breakers r)(url \<mapsto> br'\<lparr>consecutiveFails := 0\<rparr>)\<rparr>, calls)))"

definition Registry_RecordFailure :: "time \<Rightarrow> Registry \<Rightarrow> url \<Rightarrow> Registry \<times> log_call list" where
  "Registry_RecordFailure now r url =
     (case breakers r url of
        None \<Rightarrow> (r, [])
      | Some br \<Rightarrow>
          let br1 = br\<lparr>consecutiveFails := consecutiveFails br + 1\<rparr> in
          if state br1 = StateHalfOpen \<or> consecutiveFails br1 \<ge> failureThreshold br1
          then (case transition StateOpen (br1\<lparr>openAt := now\<rparr>) of (br2, calls) \<Rightarrow>
                  (r\<lparr>breakers := (breakers r)(url \<mapsto> br2\<lparr>consecutiveFails := 0\<rparr>)\<rparr>, calls))
          else (r\<lparr>breakers := (breakers r)(url \<mapsto> br1)\<rparr>, []))"

definition Registry_BreakerState :: "Registry \<Rightarrow> url \<Rightarrow> State" where
  "Registry_BreakerState r url =
     (case breakers r url of None \<Rightarrow> StateClosed | Some br \<Rightarrow> state br)"

text \<open>
  \<open>old\<close> is \<^verbatim>\<open>nil\<close> or another registry. Copying a registry onto itself changes nothing, so the pointer
  test \<^verbatim>\<open>old == r\<close>, which avoids taking the same lock twice, needs no case of its own.
\<close>

definition Registry_CarryOver :: "Registry \<Rightarrow> Registry option \<Rightarrow> Registry" where
  "Registry_CarryOver r old =
     (case old of
        None \<Rightarrow> r
      | Some o' \<Rightarrow>
          r\<lparr>breakers := (\<lambda>url.
             case breakers r url of
               None \<Rightarrow> None
             | Some nb \<Rightarrow>
                 (case breakers o' url of
                    None \<Rightarrow> Some nb
                  | Some ob \<Rightarrow> Some (nb\<lparr>state := state ob, consecutiveFails := consecutiveFails ob,
                                        openAt := openAt ob\<rparr>)))\<rparr>)"

section \<open>Specification vocabulary\<close>

text \<open>The breaker as a \<open>HealthChecker\<close> at a given time.\<close>

definition registry_avail :: "time \<Rightarrow> Registry \<Rightarrow> url \<Rightarrow> bool \<times> Registry" where
  "registry_avail now r url = (case Registry_IsAvailable now r url of (ok, r', _) \<Rightarrow> (ok, r'))"

fun ask_all :: "time list \<Rightarrow> Registry \<Rightarrow> url \<Rightarrow> bool list \<times> Registry" where
  "ask_all [] r u = ([], r)"
| "ask_all (t # ts) r u =
     (case registry_avail t r u of (ok, r') \<Rightarrow>
        (case ask_all ts r' u of (oks, r'') \<Rightarrow> (ok # oks, r'')))"

fun fail_all :: "time list \<Rightarrow> Registry \<Rightarrow> url \<Rightarrow> Registry" where
  "fail_all [] r u = r"
| "fail_all (t # ts) r u = fail_all ts (fst (Registry_RecordFailure t r u)) u"

text \<open>The steps of one registry: a question, a recorded success, a recorded failure.\<close>

inductive registry_step :: "Registry \<Rightarrow> Registry \<Rightarrow> bool" where
  ask: "registry_step r (snd (registry_avail t r u))"
| success: "registry_step r (fst (Registry_RecordSuccess r u))"
| failure: "registry_step r (fst (Registry_RecordFailure t r u))"

inductive registry_reach :: "Registry \<Rightarrow> Registry \<Rightarrow> bool" for r0 where
  reach_refl: "registry_reach r0 r0"
| reach_step: "registry_reach r0 r \<Longrightarrow> registry_step r r' \<Longrightarrow> registry_reach r0 r'"

definition Registry_wf :: "Registry \<Rightarrow> bool" where
  "Registry_wf r \<longleftrightarrow> (\<forall>u br. breakers r u = Some br \<longrightarrow>
      backend br = u \<and> 0 \<le> consecutiveFails br
      \<and> (1 \<le> failureThreshold br \<longrightarrow> consecutiveFails br < failureThreshold br))"

section \<open>Characteristic equations\<close>

lemma registry_avail_eq:
  "registry_avail now r u =
     (case breakers r u of
        None \<Rightarrow> (True, r)
      | Some br \<Rightarrow>
          (case state br of
             StateClosed \<Rightarrow> (True, r)
           | StateOpen \<Rightarrow> if cooldown br \<le> now - openAt br
                          then (True, r\<lparr>breakers := (breakers r)(u \<mapsto> br\<lparr>state := StateHalfOpen\<rparr>)\<rparr>)
                          else (False, r)
           | StateHalfOpen \<Rightarrow> (False, r)))"
  by (auto simp: registry_avail_def Registry_IsAvailable_def transition_def Let_def
      split: option.splits State.splits)

lemma RecordSuccess_eq:
  "fst (Registry_RecordSuccess r u) =
     (case breakers r u of
        None \<Rightarrow> r
      | Some br \<Rightarrow> r\<lparr>breakers := (breakers r)(u \<mapsto>
            br\<lparr>state := (if state br = StateHalfOpen then StateClosed else state br), consecutiveFails := 0\<rparr>)\<rparr>)"
  by (auto simp: Registry_RecordSuccess_def transition_def Let_def split: option.splits)

lemma RecordFailure_eq:
  "fst (Registry_RecordFailure now r u) =
     (case breakers r u of
        None \<Rightarrow> r
      | Some br \<Rightarrow> r\<lparr>breakers := (breakers r)(u \<mapsto>
            (if state br = StateHalfOpen \<or> failureThreshold br \<le> consecutiveFails br + 1
             then br\<lparr>openAt := now, state := StateOpen, consecutiveFails := 0\<rparr>
             else br\<lparr>consecutiveFails := consecutiveFails br + 1\<rparr>))\<rparr>)"
  by (auto simp: Registry_RecordFailure_def transition_def Let_def split: option.splits)

lemmas registry_eqs = registry_avail_eq RecordSuccess_eq RecordFailure_eq

lemma fill_breakers_apply:
  "fill_breakers us th c l m u = (if u \<in> set us then Some (new_breaker th c l u) else m u)"
  by (induction us arbitrary: m) auto

lemma NewRegistry_apply:
  "breakers (NewRegistry us th c l) u = (if u \<in> set us then Some (new_breaker th c l u) else None)"
  by (simp add: NewRegistry_def fill_breakers_apply)

lemma CarryOver_apply:
  "breakers (Registry_CarryOver r (Some o')) u =
     (case (breakers r u, breakers o' u) of
        (Some nb, Some ob) \<Rightarrow> Some (nb\<lparr>state := state ob, consecutiveFails := consecutiveFails ob, openAt := openAt ob\<rparr>)
      | (x, _) \<Rightarrow> x)"
  by (simp add: Registry_CarryOver_def split: option.splits)

text \<open>The breaker keeps the checker contract the balancers rely on.\<close>

interpretation registry: local_checker "registry_avail now" for now
proof
  fix h u h'
  assume "registry_avail now h u = (False, h')"
  then show "h' = h"
    by (auto simp: registry_avail_eq split: option.splits State.splits if_splits)
next
  fix u v :: url and h
  assume "u \<noteq> v"
  then show "offers (registry_avail now) (snd (registry_avail now h u)) v = offers (registry_avail now) h v"
    by (auto simp: offers_def registry_avail_eq [of _ _ u] registry_avail_eq [of _ _ v]
        split: option.splits State.splits if_splits)
qed

section \<open>Invariants of the state machine\<close>

inductive_cases registry_stepE [elim!]: "registry_step r r'"

lemma Registry_wf_New: "Registry_wf (NewRegistry us th c l)"
  by (auto simp: Registry_wf_def NewRegistry_apply new_breaker_def split: if_splits)

lemma Registry_wf_ask: "Registry_wf r \<Longrightarrow> Registry_wf (snd (registry_avail t r u))"
  by (auto simp: registry_avail_eq Registry_wf_def split: option.split State.split)

lemma Registry_wf_success: "Registry_wf r \<Longrightarrow> Registry_wf (fst (Registry_RecordSuccess r u))"
  by (auto simp: RecordSuccess_eq Registry_wf_def split: option.split)

lemma Registry_wf_failure: "Registry_wf r \<Longrightarrow> Registry_wf (fst (Registry_RecordFailure t r u))"
  by (auto simp: RecordFailure_eq Registry_wf_def split: option.split)

lemmas Registry_wf_ops [wf_intros] = Registry_wf_New Registry_wf_ask Registry_wf_success Registry_wf_failure

lemma Registry_wf_step: "registry_step r r' \<Longrightarrow> Registry_wf r \<Longrightarrow> Registry_wf r'"
  by (erule registry_stepE) (auto intro: Registry_wf_ops)

text \<open>No step adds or removes a breaker or changes its parameters.\<close>

definition same_params :: "Registry \<Rightarrow> Registry \<Rightarrow> bool" where
  "same_params r r' \<longleftrightarrow> (\<forall>u. rel_option (\<lambda>a b. failureThreshold a = failureThreshold b
      \<and> cooldown a = cooldown b \<and> backend a = backend b) (breakers r u) (breakers r' u))"

lemma same_params_refl: "same_params r r"
  by (auto simp: same_params_def intro: option.rel_refl)

lemma same_params_trans: "same_params a b \<Longrightarrow> same_params b c \<Longrightarrow> same_params a c"
  unfolding same_params_def
proof
  fix u
  assume "\<forall>u. rel_option (\<lambda>a b. failureThreshold a = failureThreshold b
      \<and> cooldown a = cooldown b \<and> backend a = backend b) (breakers a u) (breakers b u)"
    and "\<forall>u. rel_option (\<lambda>a b. failureThreshold a = failureThreshold b
      \<and> cooldown a = cooldown b \<and> backend a = backend b) (breakers b u) (breakers c u)"
  from this [THEN spec [of _ u]]
  show "rel_option (\<lambda>a b. failureThreshold a = failureThreshold b
      \<and> cooldown a = cooldown b \<and> backend a = backend b) (breakers a u) (breakers c u)"
    by (cases "breakers a u"; cases "breakers b u"; cases "breakers c u") auto
qed

lemma same_params_step: "registry_step r r' \<Longrightarrow> same_params r r'"
  by (auto simp: registry_eqs same_params_def intro: option.rel_refl split: option.splits State.splits)

text \<open>
  In every state reachable from a fresh registry, each breaker still belongs to its backend and
  keeps the configured threshold and cooldown, and its failure count lies between 0 and the
  threshold, never reaching it.
\<close>

theorem registry_invariant:
  assumes "registry_reach (NewRegistry us th cool logger) r"
  shows "Registry_wf r \<and> same_params (NewRegistry us th cool logger) r"
  using assms
proof (induction rule: registry_reach.induct)
  case reach_refl
  then show ?case by (simp add: Registry_wf_New same_params_refl)
next
  case (reach_step r r')
  then show ?case
    using Registry_wf_step same_params_step same_params_trans by metis
qed

theorem registry_invariant_witness:
  "Registry_wf (fst (Registry_RecordFailure 5 (NewRegistry [''a''] 3 30 True) ''a''))"
proof -
  have "registry_reach (NewRegistry [''a''] 3 30 True)
      (fst (Registry_RecordFailure 5 (NewRegistry [''a''] 3 30 True) ''a''))"
    by (rule reach_step [OF reach_refl failure])
  from registry_invariant [OF this] show ?thesis by simp
qed

section \<open>Tripping, cooling down, trying again\<close>

lemma fail_all_below:
  assumes "breakers r u = Some br" "state br = StateClosed" "consecutiveFails br = k"
    and "k + int (length ts) < failureThreshold br"
  shows "fail_all ts r u = r\<lparr>breakers := (breakers r)(u \<mapsto> br\<lparr>consecutiveFails := k + int (length ts)\<rparr>)\<rparr>"
  using assms
proof (induction ts arbitrary: r br k)
  case Nil
  then show ?case by (simp add: fun_upd_idem)
next
  case (Cons t ts)
  let ?br = "br\<lparr>consecutiveFails := k + 1\<rparr>"
  have "fst (Registry_RecordFailure t r u) = r\<lparr>breakers := (breakers r)(u \<mapsto> ?br)\<rparr>"
    using Cons.prems by (simp add: RecordFailure_eq)
  moreover have "fail_all ts (r\<lparr>breakers := (breakers r)(u \<mapsto> ?br)\<rparr>) u
      = r\<lparr>breakers := (breakers r)(u \<mapsto> ?br\<lparr>consecutiveFails := (k + 1) + int (length ts)\<rparr>)\<rparr>"
    using Cons.prems Cons.IH [of "r\<lparr>breakers := (breakers r)(u \<mapsto> ?br)\<rparr>" ?br "k + 1"]
    by (simp add: fun_upd_same del: fun_upd_apply)
  ultimately show ?case by (simp add: algebra_simps del: fun_upd_apply)
qed

lemma fail_all_snoc: "fail_all (ts @ [t]) r u = fst (Registry_RecordFailure t (fail_all ts r u) u)"
  by (induction ts arbitrary: r) auto

lemma ask_all_half_open:
  assumes "breakers r u = Some br" "state br = StateHalfOpen"
  shows "ask_all ts r u = (replicate (length ts) False, r)"
  using assms by (induction ts) (auto simp: registry_avail_eq)

text \<open>
  C20: a closed breaker trips on exactly \<open>failureThreshold\<close> failures in a row. Fewer leave it closed
  with that count; the last of them opens it, stamps the time of that failure and clears the count,
  and from then on every request is refused until the cooldown since that failure has passed.
\<close>

theorem breaker_trips_at_threshold:
  assumes "breakers r u = Some br" "state br = StateClosed" "consecutiveFails br = 0"
    and "failureThreshold br = int (length ts) + 1"
  shows "Registry_BreakerState (fail_all ts r u) u = StateClosed
     \<and> breakers (fail_all (ts @ [t]) r u) u
           = Some (br\<lparr>openAt := t, state := StateOpen, consecutiveFails := 0\<rparr>)
     \<and> (\<forall>now. fst (registry_avail now (fail_all (ts @ [t]) r u) u) = (cooldown br \<le> now - t))"
proof (intro conjI)
  have below: "fail_all ts r u = r\<lparr>breakers := (breakers r)(u \<mapsto> br\<lparr>consecutiveFails := int (length ts)\<rparr>)\<rparr>"
    using fail_all_below [OF assms(1-3), of ts] assms(4) by simp
  show "Registry_BreakerState (fail_all ts r u) u = StateClosed"
    using assms(2) by (simp add: below Registry_BreakerState_def)
  show open': "breakers (fail_all (ts @ [t]) r u) u
      = Some (br\<lparr>openAt := t, state := StateOpen, consecutiveFails := 0\<rparr>)"
    using assms(4) by (simp add: fail_all_snoc below RecordFailure_eq)
  show "\<forall>now. fst (registry_avail now (fail_all (ts @ [t]) r u) u) = (cooldown br \<le> now - t)"
    by (simp add: registry_avail_eq open')
qed

theorem breaker_trips_at_threshold_witness:
  "fst (registry_avail 31 (fail_all [1, 2, 3] (NewRegistry [''a''] 3 30 True) ''a'') ''a'') = False"
  using breaker_trips_at_threshold [of "NewRegistry [''a''] 3 30 True" "''a''"
      "new_breaker 3 30 True ''a''" "[1, 2]" 3]
  by (simp add: NewRegistry_apply new_breaker_def)

text \<open>
  C21: an open breaker lets exactly one trial through. Whatever requests ask while no outcome is
  recorded, at most one is accepted, and one is as soon as any of them comes after the cooldown.
\<close>

theorem half_open_single_trial:
  assumes "breakers r u = Some br" "state br = StateOpen"
  shows "count_list (fst (ask_all ts r u)) True
       = (if \<exists>t\<in>set ts. cooldown br \<le> t - openAt br then 1 else 0)"
  using assms
proof (induction ts)
  case Nil
  then show ?case by simp
next
  case (Cons t ts)
  show ?case
  proof (cases "cooldown br \<le> t - openAt br")
    case True
    let ?r = "r\<lparr>breakers := (breakers r)(u \<mapsto> br\<lparr>state := StateHalfOpen\<rparr>)\<rparr>"
    have "registry_avail t r u = (True, ?r)"
      using True Cons.prems by (simp add: registry_avail_eq)
    moreover have "ask_all ts ?r u = (replicate (length ts) False, ?r)"
      by (rule ask_all_half_open [of _ _ "br\<lparr>state := StateHalfOpen\<rparr>"]) simp_all
    ultimately show ?thesis using True by simp
  next
    case False
    then have "registry_avail t r u = (False, r)"
      using Cons.prems by (simp add: registry_avail_eq)
    with False Cons show ?thesis by (cases "ask_all ts r u") simp
  qed
qed

theorem half_open_single_trial_witness:
  "count_list (fst (ask_all [20, 33, 34, 99] (fail_all [1, 2, 3] (NewRegistry [''a''] 3 30 True) ''a'') ''a'')) True = 1"
proof -
  let ?r = "fail_all [1, 2, 3] (NewRegistry [''a''] 3 30 True) ''a''"
  let ?br = "(new_breaker 3 30 True ''a'')\<lparr>openAt := 3, state := StateOpen, consecutiveFails := 0\<rparr>"
  have b: "breakers ?r ''a'' = Some ?br"
    by (simp add: RecordFailure_eq NewRegistry_apply new_breaker_def)
  have s: "state ?br = StateOpen" by simp
  show ?thesis using half_open_single_trial [OF b s, of "[20, 33, 34, 99]"]
    by (simp add: new_breaker_def)
qed

text \<open>
  The trial decides. While a trial is in flight every request is refused; a recorded success
  closes the breaker with a clean count, a recorded failure opens it again with the cooldown counted
  from that failure.
\<close>

theorem half_open_outcome:
  assumes "breakers r u = Some br" "state br = StateHalfOpen"
  shows "fst (registry_avail now r u) = False
     \<and> breakers (fst (Registry_RecordSuccess r u)) u = Some (br\<lparr>state := StateClosed, consecutiveFails := 0\<rparr>)
     \<and> breakers (fst (Registry_RecordFailure now r u)) u
         = Some (br\<lparr>openAt := now, state := StateOpen, consecutiveFails := 0\<rparr>)"
  using assms by (simp add: registry_eqs)

theorem half_open_outcome_witness:
  "fst (registry_avail 50 \<lparr>breakers = [''a'' \<mapsto> (new_breaker 3 30 True ''a'')\<lparr>state := StateHalfOpen\<rparr>]\<rparr> ''a'') = False"
  using half_open_outcome [of "\<lparr>breakers = [''a'' \<mapsto> (new_breaker 3 30 True ''a'')\<lparr>state := StateHalfOpen\<rparr>]\<rparr>"
      "''a''" "(new_breaker 3 30 True ''a'')\<lparr>state := StateHalfOpen\<rparr>" 50] by simp

text \<open>
  A trial slot that is taken and never reported is lost for good. Once a breaker is half-open,
  no sequence of questions at any later times is ever accepted again, nor changes its state.
\<close>

theorem half_open_unreported_is_stuck:
  assumes "breakers r u = Some br" "state br = StateHalfOpen"
  shows "ask_all ts r u = (replicate (length ts) False, r)"
  using assms by (rule ask_all_half_open)

theorem half_open_unreported_is_stuck_witness:
  "fst (ask_all [100, 1000000000000] \<lparr>breakers = [''a'' \<mapsto> (new_breaker 3 30 True ''a'')\<lparr>state := StateHalfOpen\<rparr>]\<rparr> ''a'')
   = [False, False]"
  using half_open_unreported_is_stuck
    [of "\<lparr>breakers = [''a'' \<mapsto> (new_breaker 3 30 True ''a'')\<lparr>state := StateHalfOpen\<rparr>]\<rparr>" "''a''"
      "(new_breaker 3 30 True ''a'')\<lparr>state := StateHalfOpen\<rparr>" "[100, 1000000000000]"]
  by (simp add: numeral_2_eq_2)

section \<open>Reloads\<close>

text \<open>
  A reload keeps the verdict. For a backend present in both registries the new breaker has the
  old state, failure count and opening time under the new threshold and cooldown, so with an
  unchanged cooldown it answers every question as the old one would have; a backend that is new to
  the pool starts closed, and no backend outside the new pool gets a breaker.
\<close>

theorem carry_over_keeps_verdict:
  fixes r r' us th cool logger
  defines "r' \<equiv> Registry_CarryOver (NewRegistry us th cool logger) (Some r)"
  shows "dom (breakers r') = set us
     \<and> (\<forall>u br. u \<in> set us \<and> breakers r u = Some br \<longrightarrow>
           breakers r' u = Some \<lparr>state = state br, consecutiveFails = consecutiveFails br, openAt = openAt br,
              failureThreshold = th, cooldown = cool, has_logger = logger, backend = u\<rparr>
           \<and> (cooldown br = cool \<longrightarrow> (\<forall>now. fst (registry_avail now r' u) = fst (registry_avail now r u))))
     \<and> (\<forall>u. u \<in> set us \<and> breakers r u = None \<longrightarrow> breakers r' u = Some (new_breaker th cool logger u))"
proof (intro conjI)
  have b: "breakers r' u = (if u \<in> set us then (case breakers r u of
        None \<Rightarrow> Some (new_breaker th cool logger u)
      | Some br \<Rightarrow> Some \<lparr>state = state br, consecutiveFails = consecutiveFails br, openAt = openAt br,
              failureThreshold = th, cooldown = cool, has_logger = logger, backend = u\<rparr>) else None)" for u
    by (simp add: r'_def CarryOver_apply NewRegistry_apply new_breaker_def split: option.splits)
  show "dom (breakers r') = set us"
    by (auto simp: dom_def b split: option.splits if_splits)
  show "\<forall>u. u \<in> set us \<and> breakers r u = None \<longrightarrow> breakers r' u = Some (new_breaker th cool logger u)"
    by (simp add: b)
  show "\<forall>u br. u \<in> set us \<and> breakers r u = Some br \<longrightarrow>
           breakers r' u = Some \<lparr>state = state br, consecutiveFails = consecutiveFails br, openAt = openAt br,
              failureThreshold = th, cooldown = cool, has_logger = logger, backend = u\<rparr>
           \<and> (cooldown br = cool \<longrightarrow> (\<forall>now. fst (registry_avail now r' u) = fst (registry_avail now r u)))"
    by (auto simp: b registry_avail_eq split: State.splits)
qed

theorem carry_over_keeps_verdict_witness:
  "breakers (Registry_CarryOver (NewRegistry [''a'', ''b''] 5 30 True) (Some (NewRegistry [''a''] 3 30 True))) ''b''
   = Some (new_breaker 5 30 True ''b'')"
  using carry_over_keeps_verdict [where us = "[''a'', ''b'']" and r = "NewRegistry [''a''] 3 30 True"
      and th = 5 and cool = 30 and logger = True]
  by (simp add: NewRegistry_apply)

end
