(* ===== verification/Cluster.thy ===== *)
theory Cluster
  imports Prelude
begin

text \<open>
  The gossip node of \<^verbatim>\<open>internal/cluster/cluster.go\<close>. Terms are 64-bit words, so \<^verbatim>\<open>n.term++\<close> wraps as in
  Go. A peer's message is a value; the socket, the JSON codec and name resolution are
  outside the model and appear as arguments (\<open>unmarshal\<close>, \<open>dial\<close>, \<open>resolve\<close>). Of the \<^verbatim>\<open>log\<close> lines, only the
  one about a differing configuration is modelled (\<open>mismatch_line\<close>). The maps \<open>Health\<close>, \<open>own\<close>,
  \<open>origin\<close> and \<open>remoteAt\<close> are updated key by key, so the order in which Go iterates does not matter;
  \<open>seen\<close> is an association list because its entries are counted.
\<close>

section \<open>State\<close>

record Health =
  Healthy :: bool
  Failures :: int
  Term :: u64

record GossipMessage =
  msg_Version :: string
  msg_NodeID :: string
  msg_Addr :: string
  msg_Term :: u64
  msg_ConfigHash :: string
  msg_Health :: "url \<rightharpoonup> Health"

record Peer =
  Peer_ID :: string
  Peer_Addr :: string

record Node =
  NodeID :: string
  Addr :: string
  GossipAddr :: string
  Peers :: "Peer list"
  GossipSec :: int
  nHealth :: "url \<rightharpoonup> Health"
  own :: "url \<rightharpoonup> Health"
  origin :: "url \<rightharpoonup> string"
  remoteAt :: "url \<rightharpoonup> time"
  staleAfter :: time
  node_term :: u64
  seen :: "(string \<times> time) list"
  configHash :: string
  mismatches :: int

definition zero_health :: Health where
  "zero_health = \<lparr>Healthy = False, Failures = 0, Term = 0\<rparr>"

text \<open>Reading a Go map gives the zero value for a missing key.\<close>

definition health_at :: "(url \<rightharpoonup> Health) \<Rightarrow> url \<Rightarrow> Health" where
  "health_at m b = (case m b of None \<Rightarrow> zero_health | Some h \<Rightarrow> h)"

definition origin_at :: "(url \<rightharpoonup> string) \<Rightarrow> url \<Rightarrow> string" where
  "origin_at m b = (case m b of None \<Rightarrow> '''' | Some s \<Rightarrow> s)"

section \<open>Operations\<close>

definition NewNode :: "string \<Rightarrow> string \<Rightarrow> string list \<Rightarrow> int \<Rightarrow> Node" where
  "NewNode nodeID addr peers gossipSec =
     (let gs = (if gossipSec \<le> 0 then 5 else gossipSec);
          stale0 = seconds (gs * 3);
          stale = (if stale0 < 15 * second then 15 * second else stale0)
      in \<lparr>NodeID = nodeID, Addr = addr, GossipAddr = addr,
          Peers = map (\<lambda>p. \<lparr>Peer_ID = p, Peer_Addr = p\<rparr>) peers, GossipSec = gs,
          nHealth = Map.empty, own = Map.empty, origin = Map.empty, remoteAt = Map.empty,
          staleAfter = stale, node_term = 0, seen = [], configHash = '''', mismatches = 0\<rparr>)"

definition Node_GetTerm :: "Node \<Rightarrow> u64" where
  "Node_GetTerm n = node_term n"

definition Node_IncrementTerm :: "Node \<Rightarrow> u64 \<times> Node" where
  "Node_IncrementTerm n = (let n' = n\<lparr>node_term := node_term n + 1\<rparr> in (node_term n', n'))"

definition Node_SetHealth :: "url \<Rightarrow> bool \<Rightarrow> Node \<Rightarrow> Node" where
  "Node_SetHealth b healthy n0 =
     (case Node_IncrementTerm n0 of (t, n) \<Rightarrow>
        let h0 = health_at (nHealth n) b;
            h1 = h0\<lparr>Healthy := healthy\<rparr>;
            h2 = (if \<not> healthy then h1\<lparr>Failures := Failures h1 + 1\<rparr> else h1\<lparr>Failures := 0\<rparr>);
            h = h2\<lparr>Term := t\<rparr>
        in n\<lparr>nHealth := (nHealth n)(b \<mapsto> h), own := (own n)(b \<mapsto> h),
             origin := (origin n)(b \<mapsto> ''''), remoteAt := (remoteAt n)(b := None)\<rparr>)"

definition Node_isStale :: "time \<Rightarrow> Node \<Rightarrow> url \<Rightarrow> bool" where
  "Node_isStale now n b =
     (case remoteAt n b of None \<Rightarrow> False | Some at \<Rightarrow> now - at > staleAfter n)"

definition Node_GetHealth :: "time \<Rightarrow> Node \<Rightarrow> url \<Rightarrow> bool \<Rightarrow> bool" where
  "Node_GetHealth now n b localHealthy =
     (case nHealth n b of
        None \<Rightarrow> localHealthy
      | Some h \<Rightarrow> if Node_isStale now n b then localHealthy else Healthy h)"

definition Node_GetMergedHealth :: "time \<Rightarrow> Node \<Rightarrow> (url \<rightharpoonup> Health)" where
  "Node_GetMergedHealth now n = (\<lambda>k. if Node_isStale now n k then None else nHealth n k)"

definition Node_ownHealth :: "Node \<Rightarrow> (url \<rightharpoonup> Health)" where
  "Node_ownHealth n = (\<lambda>k. own n k)"

text \<open>Only keys of \<open>remoteAt\<close> can be stale, so the loop over them touches exactly the stale entries.\<close>

definition Node_expireRemote :: "time \<Rightarrow> Node \<Rightarrow> Node" where
  "Node_expireRemote now n =
     n\<lparr>remoteAt := (\<lambda>b. if Node_isStale now n b then None else remoteAt n b),
       origin := (\<lambda>b. if Node_isStale now n b then None else origin n b),
       nHealth := (\<lambda>b. if Node_isStale now n b
                        then (case own n b of Some h \<Rightarrow> Some h | None \<Rightarrow> None)
                        else nHealth n b)\<rparr>"

definition Node_SetConfigHash :: "string \<Rightarrow> Node \<Rightarrow> Node" where
  "Node_SetConfigHash h n = n\<lparr>configHash := h\<rparr>"

definition Node_ConfigHash :: "Node \<Rightarrow> string" where
  "Node_ConfigHash n = configHash n"

definition Node_ConfigMismatches :: "Node \<Rightarrow> int" where
  "Node_ConfigMismatches n = mismatches n"

definition Node_LivePeerCount :: "time \<Rightarrow> Node \<Rightarrow> nat" where
  "Node_LivePeerCount now n = alist_count (\<lambda>at. now - at \<le> staleAfter n) (seen n)"

definition Node_markPeerSeen :: "time \<Rightarrow> string \<Rightarrow> Node \<Rightarrow> Node" where
  "Node_markPeerSeen now nodeID n =
     (if nodeID = '''' then n else n\<lparr>seen := AList.update nodeID now (seen n)\<rparr>)"

text \<open>One key of the merge loop: the new \<open>Health\<close>, \<open>origin\<close> and \<open>remoteAt\<close> entries.\<close>

definition merge_entry :: "time \<Rightarrow> string \<Rightarrow> Node \<Rightarrow> url \<Rightarrow> Health
    \<Rightarrow> Health option \<times> string option \<times> time option" where
  "merge_entry now sender n b h =
     (let existing = health_at (nHealth n) b; known = (nHealth n b \<noteq> None) in
      if \<not> known \<or> Term h > Term existing then (Some h, Some sender, Some now)
      else if origin_at (origin n) b = sender then (nHealth n b, origin n b, Some now)
      else (nHealth n b, origin n b, remoteAt n b))"

definition merge_health :: "time \<Rightarrow> GossipMessage \<Rightarrow> Node \<Rightarrow> Node" where
  "merge_health now msg n =
     (let e = (\<lambda>b. case msg_Health msg b of
                     None \<Rightarrow> (nHealth n b, origin n b, remoteAt n b)
                   | Some h \<Rightarrow> merge_entry now (msg_NodeID msg) n b h)
      in n\<lparr>nHealth := (\<lambda>b. fst (e b)), origin := (\<lambda>b. fst (snd (e b))),
           remoteAt := (\<lambda>b. snd (snd (e b)))\<rparr>)"

definition Node_MergeGossip :: "time \<Rightarrow> GossipMessage \<Rightarrow> Node \<Rightarrow> Node" where
  "Node_MergeGossip now msg n0 =
     (if msg_NodeID msg = NodeID n0 then n0
      else
        let n1 = Node_markPeerSeen now (msg_NodeID msg) n0;
            n2 = (if msg_ConfigHash msg \<noteq> '''' \<and> Node_ConfigHash n1 \<noteq> ''''
                     \<and> Node_ConfigHash n1 \<noteq> msg_ConfigHash msg
                  then n1\<lparr>mismatches := mismatches n1 + 1\<rparr> else n1)
        in if msg_Term msg < Node_GetTerm n2 then n2
           else let n3 = (if msg_Term msg > node_term n2 then n2\<lparr>node_term := msg_Term msg\<rparr> else n2)
                in merge_health now msg n3)"

text \<open>
  The line \<open>MergeGossip\<close> prints about a peer with another configuration: the first time, then every 30th time.
  The dash in it is three bytes of UTF-8.
\<close>

definition shortHash :: "string \<Rightarrow> string" where
  "shortHash h = (if length h \<le> 12 then h else take 12 h)"

definition mismatch_line :: "GossipMessage \<Rightarrow> Node \<Rightarrow> string option" where
  "mismatch_line msg n =
     (let mine = Node_ConfigHash n in
      if msg_NodeID msg \<noteq> NodeID n \<and> msg_ConfigHash msg \<noteq> '''' \<and> mine \<noteq> '''' \<and> mine \<noteq> msg_ConfigHash msg
         \<and> (mismatches n + 1) mod 30 = 1
      then Some (''cluster: config hash mismatch with '' @ msg_NodeID msg @ '' (local '' @ shortHash mine @ '', peer ''
             @ shortHash (msg_ConfigHash msg) @ '') '' @ [CHR 0xE2, CHR 0x80, CHR 0x94]
             @ '' replicas may route to different backends'')
      else None)"

text \<open>
  A gossip round builds one message from this node's own findings and writes it to every peer whose
  address can be dialled; the result lists the datagrams sent.
\<close>

definition Node_sendGossip :: "(string \<Rightarrow> bool) \<Rightarrow> Node \<Rightarrow> Node \<times> (string \<times> GossipMessage) list" where
  "Node_sendGossip dial n0 =
     (case Node_IncrementTerm n0 of (_, n) \<Rightarrow>
        let msg = \<lparr>msg_Version = ''1'', msg_NodeID = NodeID n, msg_Addr = Addr n,
                   msg_Term = Node_GetTerm n, msg_ConfigHash = Node_ConfigHash n,
                   msg_Health = Node_ownHealth n\<rparr>
        in (n, map (\<lambda>p. (Peer_Addr p, msg)) (filter (\<lambda>p. dial (Peer_Addr p)) (Peers n))))"

text \<open>What \<open>ReadFrom\<close> gives the listener: a timeout, another error, or a datagram.\<close>

datatype read_event = ReadTimeout | ReadError | Datagram time "byte list"

definition buffer_size :: nat where
  "buffer_size = 4096"

fun Node_listenLoop :: "(byte list \<Rightarrow> GossipMessage option) \<Rightarrow> read_event list \<Rightarrow> Node \<Rightarrow> Node" where
  "Node_listenLoop unmarshal [] n = n"
| "Node_listenLoop unmarshal (ReadTimeout # es) n = Node_listenLoop unmarshal es n"
| "Node_listenLoop unmarshal (ReadError # es) n = n"
| "Node_listenLoop unmarshal (Datagram now ds # es) n =
     (case unmarshal (take buffer_size ds) of
        None \<Rightarrow> Node_listenLoop unmarshal es n
      | Some msg \<Rightarrow> Node_listenLoop unmarshal es (Node_MergeGossip now msg n))"

datatype gossip_event = GossipTick time | GossipStop

fun Node_gossipLoop :: "(string \<Rightarrow> bool) \<Rightarrow> gossip_event list \<Rightarrow> Node \<Rightarrow> Node \<times> (string \<times> GossipMessage) list" where
  "Node_gossipLoop dial [] n = (n, [])"
| "Node_gossipLoop dial (GossipStop # es) n = (n, [])"
| "Node_gossipLoop dial (GossipTick now # es) n =
     (case Node_sendGossip dial (Node_expireRemote now n) of (n', out) \<Rightarrow>
        (case Node_gossipLoop dial es n' of (n'', out') \<Rightarrow> (n'', out @ out')))"

text \<open>\<open>Discover\<close>: the first address that does not resolve is the error.\<close>

fun cluster_Discover :: "(string \<Rightarrow> string option) \<Rightarrow> string list \<Rightarrow> (string, Peer list) go" where
  "cluster_Discover resolve [] = Ok []"
| "cluster_Discover resolve (p # ps) =
     (case resolve p of
        None \<Rightarrow> Fail p
      | Some a \<Rightarrow>
          (case cluster_Discover resolve ps of
             Ok rest \<Rightarrow> Ok (\<lparr>Peer_ID = p, Peer_Addr = a\<rparr> # rest)
           | Fail e \<Rightarrow> Fail e
           | Panic \<Rightarrow> Panic))"

text \<open>
  The life cycle of a node's goroutines. \<open>Start\<close> needs the address to resolve and the socket to bind;
  \<open>stopOnce\<close> makes \<open>Stop\<close> idempotent.
\<close>

record node_service =
  ns_node :: Node
  ns_listening :: bool
  ns_stopped :: bool

definition Node_Start :: "(string \<Rightarrow> bool) \<Rightarrow> (string \<Rightarrow> bool) \<Rightarrow> node_service \<Rightarrow> (string, unit) go \<times> node_service" where
  "Node_Start resolves binds s =
     (let a = Addr (ns_node s) in
      if \<not> resolves a then (Fail (''gossip address '' @ a), s)
      else if \<not> binds a then (Fail (''gossip listener on '' @ a), s)
      else (Ok (), s\<lparr>ns_listening := True\<rparr>))"

definition Node_Stop :: "node_service \<Rightarrow> node_service" where
  "Node_Stop s = (if ns_stopped s then s else s\<lparr>ns_stopped := True, ns_listening := False\<rparr>)"

section \<open>Invariant\<close>

text \<open>
  What every operation keeps: no finding carries a term above the node's own; a backend without a
  live peer finding shows exactly this node's own finding; a peer finding is stamped and present; and
  this node's own finding is never newer than the one in effect.
\<close>

definition Node_wf :: "Node \<Rightarrow> bool" where
  "Node_wf n \<longleftrightarrow>
     (\<forall>b h. nHealth n b = Some h \<longrightarrow> Term h \<le> node_term n)
   \<and> (\<forall>b. remoteAt n b = None \<longrightarrow> nHealth n b = own n b)
   \<and> (\<forall>b. remoteAt n b \<noteq> None \<longrightarrow> nHealth n b \<noteq> None)
   \<and> (\<forall>b h. own n b = Some h \<longrightarrow> (\<exists>h'. nHealth n b = Some h' \<and> Term h \<le> Term h'))
   \<and> 15 * second \<le> staleAfter n \<and> 1 \<le> GossipSec n \<and> distinct (map fst (seen n))"

text \<open>A message whose findings are not newer than the message itself.\<close>

definition honest :: "GossipMessage \<Rightarrow> bool" where
  "honest msg \<longleftrightarrow> (\<forall>b h. msg_Health msg b = Some h \<longrightarrow> Term h \<le> msg_Term msg)"

text \<open>\<open>no_wrap n\<close>: the next increment of the term does not wrap around to 0.\<close>

definition no_wrap :: "Node \<Rightarrow> bool" where
  "no_wrap n \<longleftrightarrow> node_term n < node_term n + 1"

lemma Node_wfD:
  assumes "Node_wf n"
  shows "nHealth n b = Some h \<Longrightarrow> Term h \<le> node_term n"
    and "remoteAt n b = None \<Longrightarrow> nHealth n b = own n b"
    and "remoteAt n b = Some t \<Longrightarrow> nHealth n b \<noteq> None"
    and "own n b = Some h \<Longrightarrow> \<exists>h'. nHealth n b = Some h' \<and> Term h \<le> Term h'"
    and "own n b = Some h \<Longrightarrow> Term h \<le> node_term n"
    and "15 * second \<le> staleAfter n" and "1 \<le> GossipSec n" and "distinct (map fst (seen n))"
proof -
  note wf = assms [unfolded Node_wf_def]
  show "own n b = Some h \<Longrightarrow> \<exists>h'. nHealth n b = Some h' \<and> Term h \<le> Term h'" using wf by blast
  show "own n b = Some h \<Longrightarrow> Term h \<le> node_term n" using wf order_trans by blast
qed (use assms in \<open>auto simp: Node_wf_def\<close>)

lemma NewNode_wf: "Node_wf (NewNode i a ps g)"
  by (auto simp: Node_wf_def NewNode_def Let_def)

lemma SetHealth_eqs:
  fixes b v n
  defines "n' \<equiv> Node_SetHealth b v n"
    and "h \<equiv> \<lparr>Healthy = v, Failures = (if v then 0 else Failures (health_at (nHealth n) b) + 1), Term = node_term n + 1\<rparr>"
  shows "nHealth n' = (nHealth n)(b \<mapsto> h)" "own n' = (own n)(b \<mapsto> h)"
    "remoteAt n' = (remoteAt n)(b := None)" "origin n' = (origin n)(b \<mapsto> '''')"
    "node_term n' = node_term n + 1" "staleAfter n' = staleAfter n" "GossipSec n' = GossipSec n"
    "seen n' = seen n" "NodeID n' = NodeID n" "Peers n' = Peers n"
  by (auto simp: n'_def h_def Node_SetHealth_def Node_IncrementTerm_def Let_def)

lemma no_wrap_le: "no_wrap n \<Longrightarrow> t \<le> node_term n \<Longrightarrow> t \<le> node_term n + 1"
  unfolding no_wrap_def by (meson order_less_imp_le order_trans)

lemma SetHealth_wf: "Node_wf n \<Longrightarrow> no_wrap n \<Longrightarrow> Node_wf (Node_SetHealth b v n)"
  unfolding Node_wf_def SetHealth_eqs by (auto intro: no_wrap_le)

lemma IncrementTerm_wf: "Node_wf n \<Longrightarrow> no_wrap n \<Longrightarrow> Node_wf (n\<lparr>node_term := node_term n + 1\<rparr>)"
  by (auto simp: Node_wf_def intro: no_wrap_le)

lemma isStale_remote: "Node_isStale now n b \<Longrightarrow> remoteAt n b \<noteq> None"
  by (auto simp: Node_isStale_def split: option.splits)

lemma expireRemote_eqs:
  "nHealth (Node_expireRemote now n) b = (if Node_isStale now n b then own n b else nHealth n b)"
  "remoteAt (Node_expireRemote now n) b = (if Node_isStale now n b then None else remoteAt n b)"
  "own (Node_expireRemote now n) = own n" "node_term (Node_expireRemote now n) = node_term n"
  "staleAfter (Node_expireRemote now n) = staleAfter n" "GossipSec (Node_expireRemote now n) = GossipSec n"
  "seen (Node_expireRemote now n) = seen n" "NodeID (Node_expireRemote now n) = NodeID n"
  by (auto simp: Node_expireRemote_def split: option.splits)

lemma expireRemote_wf:
  assumes wf: "Node_wf n"
  shows "Node_wf (Node_expireRemote now n)"
proof -
  have "own n b = Some h \<Longrightarrow> Term h \<le> node_term n" for b h using Node_wfD(5) [OF wf] .
  then show ?thesis using wf unfolding Node_wf_def expireRemote_eqs by (auto split: if_splits)
qed

lemma sendGossip_wf: "Node_wf n \<Longrightarrow> no_wrap n \<Longrightarrow> Node_wf (fst (Node_sendGossip dial n))"
  by (simp add: Node_sendGossip_def Node_IncrementTerm_def Let_def IncrementTerm_wf)

lemma sendGossip_out:
  assumes "(a, msg) \<in> set (snd (Node_sendGossip dial n))"
  shows "msg_NodeID msg = NodeID n \<and> msg_Term msg = node_term n + 1 \<and> msg_Health msg = own n
       \<and> msg_ConfigHash msg = configHash n"
  using assms
  by (auto simp: Node_sendGossip_def Node_IncrementTerm_def Let_def Node_ownHealth_def Node_GetTerm_def
      Node_ConfigHash_def)


subsection \<open>Merging\<close>

text \<open>The effect of a merge on one backend, for a message that is neither self-traffic nor outdated.\<close>

definition accepts :: "Node \<Rightarrow> GossipMessage \<Rightarrow> bool" where
  "accepts n msg \<longleftrightarrow> msg_NodeID msg \<noteq> NodeID n \<and> node_term n \<le> msg_Term msg"

definition newer :: "Node \<Rightarrow> GossipMessage \<Rightarrow> url \<Rightarrow> bool" where
  "newer n msg b \<longleftrightarrow> (case msg_Health msg b of None \<Rightarrow> False
     | Some h \<Rightarrow> (case nHealth n b of None \<Rightarrow> True | Some h' \<Rightarrow> Term h' < Term h))"

lemma MergeGossip_frame:
  "own (Node_MergeGossip now msg n) = own n" "staleAfter (Node_MergeGossip now msg n) = staleAfter n"
  "GossipSec (Node_MergeGossip now msg n) = GossipSec n" "NodeID (Node_MergeGossip now msg n) = NodeID n"
  "Peers (Node_MergeGossip now msg n) = Peers n"
  by (auto simp: Node_MergeGossip_def merge_health_def Node_markPeerSeen_def Let_def)

lemma MergeGossip_seen:
  "seen (Node_MergeGossip now msg n) =
     (if msg_NodeID msg = NodeID n \<or> msg_NodeID msg = '''' then seen n
      else AList.update (msg_NodeID msg) now (seen n))"
  by (auto simp: Node_MergeGossip_def merge_health_def Node_markPeerSeen_def Let_def)

lemma MergeGossip_rejected:
  assumes "\<not> accepts n msg"
  shows "nHealth (Node_MergeGossip now msg n) = nHealth n" "remoteAt (Node_MergeGossip now msg n) = remoteAt n"
    "origin (Node_MergeGossip now msg n) = origin n" "node_term (Node_MergeGossip now msg n) = node_term n"
  using assms
  by (auto simp: accepts_def Node_MergeGossip_def Node_markPeerSeen_def Node_GetTerm_def Let_def not_le)

lemma MergeGossip_accepted:
  assumes "accepts n msg"
  shows "nHealth (Node_MergeGossip now msg n) b = (if newer n msg b then msg_Health msg b else nHealth n b)"
    and "remoteAt (Node_MergeGossip now msg n) b =
      (if newer n msg b \<or> (msg_Health msg b \<noteq> None \<and> origin_at (origin n) b = msg_NodeID msg)
       then Some now else remoteAt n b)"
    and "origin (Node_MergeGossip now msg n) b = (if newer n msg b then Some (msg_NodeID msg) else origin n b)"
    and "node_term (Node_MergeGossip now msg n) = msg_Term msg"
  using assms
  by (auto simp: accepts_def newer_def Node_MergeGossip_def Node_markPeerSeen_def Node_GetTerm_def Let_def
      merge_health_def merge_entry_def health_at_def split: option.splits)

lemma MergeGossip_wf:
  assumes wf: "Node_wf n" and h: "honest msg"
  shows "Node_wf (Node_MergeGossip now msg n)"
proof (cases "accepts n msg")
  case True
  let ?n = "Node_MergeGossip now msg n"
  note eq = MergeGossip_accepted [OF True, of now] MergeGossip_frame
  have le: "node_term n \<le> msg_Term msg" using True by (simp add: accepts_def)
  have "nHealth ?n b = Some k \<Longrightarrow> Term k \<le> node_term ?n" for b k
    using Node_wfD(1) [OF wf, of b k] h le
    by (auto simp: eq honest_def intro: order_trans split: if_splits)
  moreover have "remoteAt ?n b = None \<Longrightarrow> nHealth ?n b = own ?n b" for b
    using Node_wfD(2) [OF wf, of b] by (auto simp: eq split: if_splits)
  moreover have "remoteAt ?n b \<noteq> None \<Longrightarrow> nHealth ?n b \<noteq> None" for b
    using Node_wfD(3) [OF wf, of b] by (auto simp: eq newer_def split: if_splits option.splits)
  moreover have "\<exists>k'. nHealth ?n b = Some k' \<and> Term k \<le> Term k'" if o: "own ?n b = Some k" for b k
  proof -
    obtain k' where k': "nHealth n b = Some k'" "Term k \<le> Term k'"
      using Node_wfD(4) [OF wf, of b k] o by (auto simp: eq)
    then show ?thesis
      by (cases "msg_Health msg b") (auto simp: eq newer_def)
  qed
  moreover have "distinct (map fst (seen ?n))"
    using Node_wfD(8) [OF wf] by (simp add: MergeGossip_seen distinct_update)
  ultimately show ?thesis
    using Node_wfD(6,7) [OF wf] unfolding Node_wf_def by (simp add: MergeGossip_frame)
next
  case False
  then show ?thesis
    using wf by (auto simp: Node_wf_def MergeGossip_rejected MergeGossip_frame MergeGossip_seen distinct_update)
qed

section \<open>Reachable nodes\<close>

inductive node_step :: "Node \<Rightarrow> Node \<Rightarrow> bool" where
  local_finding: "no_wrap n \<Longrightarrow> node_step n (Node_SetHealth b v n)"
| gossip_round: "no_wrap n \<Longrightarrow> node_step n (fst (Node_sendGossip dial (Node_expireRemote now n)))"
| receive: "honest msg \<Longrightarrow> node_step n (Node_MergeGossip now msg n)"
| set_hash: "node_step n (Node_SetConfigHash h n)"

inductive node_reach :: "Node \<Rightarrow> bool" where
  node_start: "node_reach (NewNode i a ps g)"
| node_next: "node_reach n \<Longrightarrow> node_step n n' \<Longrightarrow> node_reach n'"

lemma node_step_wf: "node_step n n' \<Longrightarrow> Node_wf n \<Longrightarrow> Node_wf n'"
proof (induction rule: node_step.induct)
  case (gossip_round n dial now)
  then show ?case
    by (intro sendGossip_wf expireRemote_wf) (simp_all add: no_wrap_def expireRemote_eqs)
next
  case (set_hash n h)
  then show ?case by (simp add: Node_wf_def Node_SetConfigHash_def)
qed (auto intro: SetHealth_wf MergeGossip_wf)



section \<open>Properties of health sharing\<close>

lemma GetHealth_local: "remoteAt n b = None \<Longrightarrow> nHealth n b = Some h \<Longrightarrow> Node_GetHealth now n b fb = Healthy h"
  by (simp add: Node_GetHealth_def Node_isStale_def)

lemma GetHealth_remote:
  "remoteAt n b = Some at \<Longrightarrow> nHealth n b = Some h \<Longrightarrow>
     Node_GetHealth now n b fb = (if now - at > staleAfter n then fb else Healthy h)"
  by (simp add: Node_GetHealth_def Node_isStale_def)

text \<open>
  What this node just observed outranks everything it has heard. After a local finding, every
  query at any time answers with it, it is stamped with a term strictly above every finding the
  node held, and a message can only displace it with a finding of a strictly higher term.
\<close>

theorem local_finding_outranks:
  assumes "Node_wf n" "no_wrap n"
  shows "Node_GetHealth now (Node_SetHealth b v n) b fb = v
     \<and> (\<forall>b' h. nHealth n b' = Some h \<longrightarrow> Term h < Term (the (nHealth (Node_SetHealth b v n) b)))
     \<and> (\<forall>msg. (\<forall>h. msg_Health msg b = Some h \<longrightarrow> Term h \<le> node_term n + 1)
          \<longrightarrow> nHealth (Node_MergeGossip now msg (Node_SetHealth b v n)) b = nHealth (Node_SetHealth b v n) b)"
proof -
  let ?n = "Node_SetHealth b v n"
  have lt: "node_term n < node_term n + 1" using assms(2) by (simp add: no_wrap_def)
  have e: "nHealth ?n b = Some \<lparr>Healthy = v, Failures = (if v then 0 else Failures (health_at (nHealth n) b) + 1),
      Term = node_term n + 1\<rparr>" "remoteAt ?n b = None"
    by (simp_all add: SetHealth_eqs)
  have "Node_GetHealth now ?n b fb = v" by (simp add: GetHealth_local [OF e(2,1)])
  moreover have "Term h < Term (the (nHealth ?n b))" if "nHealth n b' = Some h" for b' h
    using Node_wfD(1) [OF assms(1) that] lt by (simp add: e)
  moreover have "nHealth (Node_MergeGossip now msg ?n) b = nHealth ?n b"
    if m: "\<forall>h. msg_Health msg b = Some h \<longrightarrow> Term h \<le> node_term n + 1" for msg
  proof (cases "accepts ?n msg")
    case True
    have "\<not> newer ?n msg b" using m by (auto simp: newer_def e split: option.splits)
    then show ?thesis by (simp add: MergeGossip_accepted [OF True])
  qed (simp add: MergeGossip_rejected)
  ultimately show ?thesis by blast
qed

theorem local_finding_outranks_witness:
  "Node_GetHealth 99 (Node_SetHealth ''b'' False (NewNode ''n1'' ''h:1'' [] 5)) ''b'' True = False"
  using local_finding_outranks [OF NewNode_wf [of "''n1''" "''h:1''" "[]" 5], of 99 "''b''" False True]
  by (simp add: no_wrap_def NewNode_def Let_def)

text \<open>
  C24: a finding reaches a peer and does not outlive its sender. When node \<open>A\<close> records a verdict on a
  backend and gossips, a peer \<open>B\<close> whose term is not ahead and whose own view is older answers with
  that verdict while at most \<open>staleAfter\<close> has passed since the message, and falls back to its local
  opinion afterwards; its next gossip round then puts \<open>B\<close>'s own finding, if any, back in place.
\<close>

theorem finding_propagates_and_expires:
  assumes wf: "Node_wf B" and msg: "(addr, msg) \<in> set (snd (Node_sendGossip dial (Node_SetHealth b v A)))"
    and acc: "accepts B msg" and old: "\<forall>h. nHealth B b = Some h \<longrightarrow> Term h < node_term A + 1"
    and B': "B' = Node_MergeGossip t0 msg B"
  shows "Node_GetHealth now B' b fb = (if now - t0 \<le> staleAfter B then v else fb)
     \<and> (now - t0 > staleAfter B \<longrightarrow>
          nHealth (Node_expireRemote now B') b = own B b \<and> remoteAt (Node_expireRemote now B') b = None)"
proof -
  let ?A = "Node_SetHealth b v A"
  let ?h = "\<lparr>Healthy = v, Failures = (if v then 0 else Failures (health_at (nHealth A) b) + 1), Term = node_term A + 1\<rparr>"
  have m: "msg_Health msg b = Some ?h"
    using sendGossip_out [OF msg] by (simp add: SetHealth_eqs)
  have new: "newer B msg b" using old by (auto simp: newer_def m split: option.splits)
  have r: "remoteAt B' b = Some t0" "nHealth B' b = Some ?h" "staleAfter B' = staleAfter B" "own B' = own B"
    using new m by (simp_all add: B' MergeGossip_accepted [OF acc] MergeGossip_frame)
  show ?thesis
    using GetHealth_remote [OF r(1,2)] r
    by (auto simp: expireRemote_eqs Node_isStale_def)
qed

theorem finding_propagates_and_expires_witness:
  "Node_GetHealth 20 (Node_MergeGossip 10
      \<lparr>msg_Version = ''1'', msg_NodeID = ''A'', msg_Addr = ''a:1'', msg_Term = 2, msg_ConfigHash = '''',
       msg_Health = [''b'' \<mapsto> \<lparr>Healthy = False, Failures = 1, Term = 1\<rparr>]\<rparr>
      (NewNode ''B'' ''b:1'' [] 5)) ''b'' True = False"
proof -
  let ?A = "NewNode ''A'' ''a:1'' [''b:1''] 5" and ?B = "NewNode ''B'' ''b:1'' [] 5"
  let ?msg = "\<lparr>msg_Version = ''1'', msg_NodeID = ''A'', msg_Addr = ''a:1'', msg_Term = 2, msg_ConfigHash = '''',
       msg_Health = [''b'' \<mapsto> \<lparr>Healthy = False, Failures = 1, Term = 1\<rparr>]\<rparr>"
  have m: "(''b:1'', ?msg) \<in> set (snd (Node_sendGossip (\<lambda>a. True) (Node_SetHealth ''b'' False ?A)))"
    by (simp add: Node_sendGossip_def Node_IncrementTerm_def Node_SetHealth_def NewNode_def Let_def
        Node_GetTerm_def Node_ConfigHash_def Node_ownHealth_def health_at_def zero_health_def fun_eq_iff)
  have a: "accepts ?B ?msg" by (simp add: accepts_def NewNode_def Let_def)
  have o: "\<forall>h. nHealth ?B ''b'' = Some h \<longrightarrow> Term h < node_term ?A + 1" by (simp add: NewNode_def Let_def)
  show ?thesis
    using finding_propagates_and_expires [where ?t0.0 = 10 and now = 20 and fb = True, OF NewNode_wf m a o refl]
    by (simp add: NewNode_def Let_def)
qed

text \<open>
  Findings do not travel two hops. Whatever messages a node merges and whatever it expires, the
  findings in the messages it sends are exactly its own first-hand ones, unchanged.
\<close>

theorem no_relay:
  fixes merges :: "(time \<times> GossipMessage) list" and n :: Node
  defines "n' \<equiv> fold (\<lambda>(t, m) n. Node_expireRemote t (Node_MergeGossip t m n)) merges n"
  shows "list_all (\<lambda>(a, msg). msg_Health msg = own n \<and> msg_NodeID msg = NodeID n) (snd (Node_sendGossip dial n'))"
proof -
  have "own (fold (\<lambda>(t, m) n. Node_expireRemote t (Node_MergeGossip t m n)) merges n) = own n
      \<and> NodeID (fold (\<lambda>(t, m) n. Node_expireRemote t (Node_MergeGossip t m n)) merges n) = NodeID n"
    by (induction merges arbitrary: n) (auto simp: expireRemote_eqs MergeGossip_frame)
  then show ?thesis
    using sendGossip_out unfolding n'_def by (fastforce simp: list_all_iff)
qed

text \<open>
  Replicas with findings of the same term never agree. Two fresh nodes that each make one local
  finding both stamp it with term 1; when the findings are opposite, each of the two keeps its own
  whatever number of the other's messages it merges, because only a strictly higher term replaces
  an entry.
\<close>

theorem equal_terms_never_converge:
  fixes msgs :: "(time \<times> GossipMessage) list"
  assumes "i \<noteq> j" "j \<noteq> ''''"
    and "\<forall>(t, m)\<in>set msgs. msg_NodeID m = j
           \<and> msg_Health m = own (Node_SetHealth b (\<not> v) (NewNode j aj psj gj))"
  shows "Node_GetHealth now (fold (\<lambda>(t, m) n. Node_MergeGossip t m n) msgs (Node_SetHealth b v (NewNode i ai psi gi))) b fb = v"
proof -
  let ?A = "Node_SetHealth b v (NewNode i ai psi gi)"
  define ok where "ok = (\<lambda>n :: Node. NodeID n = i \<and> remoteAt n b = None \<and> origin n b = Some ''''
      \<and> (\<exists>h. nHealth n b = Some h \<and> Healthy h = v \<and> Term h = 1))"
  have "ok ?A" by (simp add: ok_def SetHealth_eqs NewNode_def Let_def)
  moreover have "ok (Node_MergeGossip t m n)" if "ok n" "msg_NodeID m = j"
      "msg_Health m = own (Node_SetHealth b (\<not> v) (NewNode j aj psj gj))" for t m n
  proof (cases "accepts n m")
    case True
    have "\<not> newer n m b" using that by (auto simp: newer_def ok_def SetHealth_eqs NewNode_def Let_def)
    then show ?thesis
      using that assms(2) by (auto simp: ok_def MergeGossip_accepted [OF True] MergeGossip_frame origin_at_def)
  qed (use that in \<open>auto simp: ok_def MergeGossip_rejected MergeGossip_frame\<close>)
  ultimately have "ok (fold (\<lambda>(t, m) n. Node_MergeGossip t m n) msgs ?A)"
    using assms(3)
  proof (induction msgs arbitrary: rule: rev_induct)
    case (snoc x xs)
    then show ?case by (cases x) auto
  qed simp
  then show ?thesis by (auto simp: ok_def GetHealth_local)
qed

theorem equal_terms_never_converge_witness:
  "Node_GetHealth 9 (Node_MergeGossip 5
      \<lparr>msg_Version = ''1'', msg_NodeID = ''B'', msg_Addr = '''', msg_Term = 2, msg_ConfigHash = '''',
       msg_Health = own (Node_SetHealth ''u'' True (NewNode ''B'' ''b:1'' [] 5))\<rparr>
      (Node_SetHealth ''u'' False (NewNode ''A'' ''a:1'' [] 5))) ''u'' True = False"
  using equal_terms_never_converge [of "''A''" "''B''"
      "[(5, \<lparr>msg_Version = ''1'', msg_NodeID = ''B'', msg_Addr = '''', msg_Term = 2, msg_ConfigHash = '''',
       msg_Health = own (Node_SetHealth ''u'' True (NewNode ''B'' ''b:1'' [] 5))\<rparr>)]" "''u''" False "''b:1''" "[]" 5 9
      "''a:1''" "[]" 5 True]
  by simp

text \<open>
  A gossip message longer than the 4096-byte read buffer is lost whole. With a decoder that, like
  \<^verbatim>\<open>json.Unmarshal\<close>, rejects a proper prefix of a document it accepts, such a datagram leaves the
  receiving node untouched: its findings are not merged and its sender is not even counted as heard.
\<close>

theorem oversized_gossip_lost:
  assumes "\<And>ds m k. unmarshal ds = Some m \<Longrightarrow> k < length ds \<Longrightarrow> unmarshal (take k ds) = None"
    and "unmarshal ds = Some msg" and "buffer_size < length ds"
  shows "Node_listenLoop unmarshal [Datagram now ds] n = n"
  using assms by (simp add: assms(1) [OF assms(2,3)])

theorem oversized_gossip_lost_witness:
  "Node_listenLoop (\<lambda>ds. if length ds = 5000 then Some
      \<lparr>msg_Version = ''1'', msg_NodeID = ''B'', msg_Addr = '''', msg_Term = 2, msg_ConfigHash = '''', msg_Health = Map.empty\<rparr>
      else None) [Datagram 3 (replicate 5000 0)] (NewNode ''A'' ''a:1'' [] 5) = NewNode ''A'' ''a:1'' [] 5"
  by (rule oversized_gossip_lost) (auto simp: buffer_size_def split: if_splits)

text \<open>
  The peer gauge counts the replicas heard from within \<open>staleAfter\<close>, each once. On a reachable
  node the count is the number of distinct sender IDs whose last message is that recent; a message
  from another named node makes that node count, whatever the message's term.
\<close>

theorem live_peers_counted:
  assumes "node_reach n"
  shows "Node_LivePeerCount now n = card {i. \<exists>at. map_of (seen n) i = Some at \<and> now - at \<le> staleAfter n}
     \<and> (msg_NodeID msg \<noteq> NodeID n \<and> msg_NodeID msg \<noteq> '''' \<longrightarrow>
          map_of (seen (Node_MergeGossip now msg n)) (msg_NodeID msg) = Some now)"
proof -
  have "Node_wf n"
    using assms by (induction rule: node_reach.induct) (auto intro: NewNode_wf node_step_wf)
  then show ?thesis
    using Node_wfD(8) by (simp add: Node_LivePeerCount_def alist_count_card MergeGossip_seen update_conv')
qed

theorem live_peers_counted_witness:
  "Node_LivePeerCount 7 (NewNode ''A'' ''a:1'' [''b:1''] 5) = 0"
  using live_peers_counted [OF node_start, of 7 "''A''" "''a:1''" "[''b:1'']" 5]
  by (simp add: NewNode_def Let_def)

text \<open>
  Configuration drift is counted and reported at a bounded rate. Merging gossip raises the mismatch counter by
  one for every message of another node whose hash differs from this node's, and of \<open>c\<close> counted mismatches
  exactly \<open>c / 30\<close>, rounded up, are printed.
\<close>

definition drifts :: "GossipMessage \<Rightarrow> Node \<Rightarrow> bool" where
  "drifts msg n \<longleftrightarrow> msg_NodeID msg \<noteq> NodeID n \<and> msg_ConfigHash msg \<noteq> '''' \<and> configHash n \<noteq> ''''
     \<and> configHash n \<noteq> msg_ConfigHash msg"

fun mismatch_lines :: "(time \<times> GossipMessage) list \<Rightarrow> Node \<Rightarrow> string list" where
  "mismatch_lines [] n = []"
| "mismatch_lines ((t, m) # ms) n =
     (case mismatch_line m n of None \<Rightarrow> [] | Some l \<Rightarrow> [l]) @ mismatch_lines ms (Node_MergeGossip t m n)"

lemma MergeGossip_mismatches:
  "mismatches (Node_MergeGossip t m n) = mismatches n + (if drifts m n then 1 else 0)"
  by (auto simp: Node_MergeGossip_def drifts_def Let_def Node_markPeerSeen_def Node_ConfigHash_def merge_health_def)

lemma MergeGossip_drifts: "drifts m (Node_MergeGossip t m' n) = drifts m n"
  by (auto simp: Node_MergeGossip_def drifts_def Let_def Node_markPeerSeen_def Node_ConfigHash_def merge_health_def)

lemma mismatch_line_iff: "mismatch_line m n \<noteq> None \<longleftrightarrow> drifts m n \<and> (mismatches n + 1) mod 30 = 1"
  by (simp add: mismatch_line_def drifts_def Node_ConfigHash_def Let_def)

lemma thirtieth: "((i :: int) + 1 + 29) div 30 = (i + 29) div 30 + (if (i + 1) mod 30 = 1 then 1 else 0)"
proof -
  obtain q r where i: "i = 30 * q + r" "0 \<le> r" "r < 30"
    using that [of "i div 30" "i mod 30"] by simp
  have "(i + 1 + 29) div 30 = q + 1" using i by (intro int_div_pos_eq [where r = r]) auto
  moreover have "(i + 29) div 30 = (if r = 0 then q else q + 1)"
    using i by (auto intro: int_div_pos_eq [where r = 29] int_div_pos_eq [where r = "r - 1"])
  moreover have "(i + 1) mod 30 = 1 \<longleftrightarrow> r = 0"
  proof (cases "r = 29")
    case False
    then have "(i + 1) mod 30 = r + 1" using i by (intro int_mod_pos_eq [where q = q]) auto
    then show ?thesis by simp
  next
    case True
    then have "(i + 1) mod 30 = 0" using i by (intro int_mod_pos_eq [where q = "q + 1"]) auto
    then show ?thesis using True by simp
  qed
  ultimately show ?thesis by simp
qed

lemma mismatch_lines_count:
  "int (length (mismatch_lines ms n)) + (mismatches n + 29) div 30
   = (mismatches (fold (\<lambda>(t, m). Node_MergeGossip t m) ms n) + 29) div 30"
proof (induction ms arbitrary: n)
  case (Cons x ms)
  obtain t m where x: "x = (t, m)" by (cases x)
  have "(mismatches (Node_MergeGossip t m n) + 29) div 30
      = (mismatches n + 29) div 30 + (if mismatch_line m n \<noteq> None then 1 else 0)"
    unfolding mismatch_line_iff MergeGossip_mismatches using thirtieth [of "mismatches n"] by (cases "drifts m n") simp_all
  then show ?case using Cons.IH [of "Node_MergeGossip t m n"] by (cases "mismatch_line m n") (simp_all add: x case_prod_unfold)
qed simp

theorem drift_counted_and_printed:
  fixes merges i a ps g h
  defines "n0 \<equiv> Node_SetConfigHash h (NewNode i a ps g)"
  defines "c \<equiv> length (filter (\<lambda>(t, m). drifts m n0) merges)"
  shows "Node_ConfigMismatches (fold (\<lambda>(t, m). Node_MergeGossip t m) merges n0) = int c
     \<and> length (mismatch_lines merges n0) = (c + 29) div 30"
proof -
  have "mismatches (fold (\<lambda>(t, m). Node_MergeGossip t m) ms n) = mismatches n + int (length (filter (\<lambda>(t, m). drifts m n) ms))"
    for ms n
    by (induction ms arbitrary: n) (auto simp: MergeGossip_mismatches MergeGossip_drifts)
  moreover have "mismatches n0 = 0" by (simp add: n0_def Node_SetConfigHash_def NewNode_def Let_def)
  ultimately have c: "mismatches (fold (\<lambda>(t, m). Node_MergeGossip t m) merges n0) = int c" by (simp add: c_def)
  moreover have "int (length (mismatch_lines merges n0)) = int ((c + 29) div 30)"
    using mismatch_lines_count [of merges n0] c \<open>mismatches n0 = 0\<close> by (simp add: zdiv_int)
  ultimately show ?thesis by (simp add: Node_ConfigMismatches_def)
qed

end
