(* ===== verification/HealthProbe.thy ===== *)
theory HealthProbe
  imports Prelude
begin

text \<open>
  The probe endpoints of \<^verbatim>\<open>internal/health/handler.go\<close> and the background health scheduler of
  \<^verbatim>\<open>internal/health/scheduler.go\<close>. The HTTP client is outside the model: one tick of the probe loop
  receives the status code the backend answered with, or nothing when the request could not be built,
  failed or timed out. A tick returns the calls it makes to the state writer and the logger.
\<close>

section \<open>Liveness and readiness endpoints\<close>

record readyzResponse =
  Status :: string
  Message :: string

record probe_reply =
  pr_content_type :: string
  pr_code :: int
  pr_body :: readyzResponse

definition Healthz :: probe_reply where
  "Healthz = \<lparr>pr_content_type = ''application/json'', pr_code = 200,
              pr_body = \<lparr>Status = ''ok'', Message = ''''\<rparr>\<rparr>"

text \<open>\<open>checker\<close> is \<open>HasHealthyBackend\<close>; like every availability question it may change the state.\<close>

definition Readyz :: "('s \<Rightarrow> bool \<times> 's) \<Rightarrow> 's \<Rightarrow> probe_reply \<times> 's" where
  "Readyz checker s =
     (case checker s of (ok, s') \<Rightarrow>
        if ok
        then (\<lparr>pr_content_type = ''application/json'', pr_code = 200,
               pr_body = \<lparr>Status = ''ok'', Message = ''''\<rparr>\<rparr>, s')
        else (\<lparr>pr_content_type = ''application/json'', pr_code = 503,
               pr_body = \<lparr>Status = ''unavailable'', Message = ''no healthy backend available''\<rparr>\<rparr>, s'))"

section \<open>The scheduler\<close>

record SchedulerConfig =
  IntervalSec :: int
  TimeoutSec :: int
  Path :: string
  HealthyThreshold :: int
  UnhealthyThreshold :: int

record Scheduler =
  sched_backends :: "url list"
  sched_cfg :: SchedulerConfig
  sched_client_timeout :: time

text \<open>\<open>client\<close> is the timeout of the client passed in, or nothing for \<^verbatim>\<open>nil\<close>.\<close>

definition NewScheduler :: "url list \<Rightarrow> SchedulerConfig \<Rightarrow> time option \<Rightarrow> Scheduler" where
  "NewScheduler backends cfg client =
     \<lparr>sched_backends = backends, sched_cfg = cfg,
      sched_client_timeout = (case client of None \<Rightarrow> seconds (TimeoutSec cfg) | Some t \<Rightarrow> t)\<rparr>"

text \<open>The local variables of the probe goroutine.\<close>

record probe_state =
  consecutiveOK :: int
  consecutiveFail :: int
  currentHealthy :: bool

definition probe_init :: probe_state where
  "probe_init = \<lparr>consecutiveOK = 0, consecutiveFail = 0, currentHealthy = True\<rparr>"

definition probe_path :: "SchedulerConfig \<Rightarrow> string" where
  "probe_path cfg = (if Path cfg = '''' then ''/'' else Path cfg)"

text \<open>\<open>get\<close> performs the request on the target URL: the status code, or nothing on any error.\<close>

definition Scheduler_check :: "(string \<Rightarrow> int option) \<Rightarrow> url \<Rightarrow> string \<Rightarrow> bool" where
  "Scheduler_check get backend path =
     (case get (backend @ path) of
        None \<Rightarrow> False
      | Some code \<Rightarrow> 200 \<le> code \<and> code < 300)"

datatype probe_effect =
    WriteState url bool
  | LogState url string string

text \<open>The body of \<^verbatim>\<open>case <-ticker.C\<close>, after the check.\<close>

definition probe_tick :: "SchedulerConfig \<Rightarrow> url \<Rightarrow> bool \<Rightarrow> probe_state \<Rightarrow> probe_state \<times> probe_effect list" where
  "probe_tick cfg backend ok st =
     (if ok then
        let st1 = st\<lparr>consecutiveOK := consecutiveOK st + 1, consecutiveFail := 0\<rparr> in
        if \<not> currentHealthy st1 \<and> consecutiveOK st1 \<ge> HealthyThreshold cfg
        then (st1\<lparr>currentHealthy := True\<rparr>,
              [WriteState backend True,
               LogState backend ''healthy'' (itoa (consecutiveOK st1) @ '' consecutive successes'')])
        else (st1, [])
      else
        let st1 = st\<lparr>consecutiveFail := consecutiveFail st + 1, consecutiveOK := 0\<rparr> in
        if currentHealthy st1 \<and> consecutiveFail st1 \<ge> UnhealthyThreshold cfg
        then (st1\<lparr>currentHealthy := False\<rparr>,
              [WriteState backend False,
               LogState backend ''unhealthy'' (itoa (consecutiveFail st1) @ '' consecutive failures'')])
        else (st1, []))"

text \<open>
  What the goroutine receives: a tick with the answer to its request, or the cancellation of its
  context, after which it returns.
\<close>

datatype probe_event = Tick "int option" | Cancelled

fun probe_loop :: "SchedulerConfig \<Rightarrow> url \<Rightarrow> probe_event list \<Rightarrow> probe_state \<Rightarrow> probe_state \<times> probe_effect list" where
  "probe_loop cfg backend [] st = (st, [])"
| "probe_loop cfg backend (Cancelled # es) st = (st, [])"
| "probe_loop cfg backend (Tick reply # es) st =
     (let ok = Scheduler_check (\<lambda>target. reply) backend (probe_path cfg) in
      case probe_tick cfg backend ok st of (st', effs) \<Rightarrow>
        (case probe_loop cfg backend es st' of (st'', effs') \<Rightarrow> (st'', effs @ effs')))"

section \<open>Specification vocabulary\<close>

text \<open>Consecutive ticks with the given check results.\<close>

fun probe_ticks :: "SchedulerConfig \<Rightarrow> url \<Rightarrow> bool list \<Rightarrow> probe_state \<Rightarrow> probe_state \<times> probe_effect list" where
  "probe_ticks cfg b [] st = (st, [])"
| "probe_ticks cfg b (ok # oks) st =
     (case probe_tick cfg b ok st of (st', effs) \<Rightarrow>
        (case probe_ticks cfg b oks st' of (st'', effs') \<Rightarrow> (st'', effs @ effs')))"

fun writes :: "probe_effect list \<Rightarrow> bool list" where
  "writes [] = []"
| "writes (WriteState b v # es) = v # writes es"
| "writes (LogState b s r # es) = writes es"

text \<open>The verdict flips on every write: the list alternates, starting with the negation of \<open>v\<close>.\<close>

fun alternates :: "bool \<Rightarrow> bool list \<Rightarrow> bool" where
  "alternates v [] = True"
| "alternates v (w # ws) = (w = (\<not> v) \<and> alternates w ws)"

definition two_xx :: "int option \<Rightarrow> bool" where
  "two_xx reply = (case reply of None \<Rightarrow> False | Some code \<Rightarrow> code \<in> {200..299})"

lemma Scheduler_check_two_xx: "Scheduler_check (\<lambda>t. reply) b p = two_xx reply"
  by (auto simp: Scheduler_check_def two_xx_def split: option.splits)

lemma probe_loop_ticks: "probe_loop cfg b (map Tick rs) st = probe_ticks cfg b (map two_xx rs) st"
  by (induction rs arbitrary: st) (simp_all add: Scheduler_check_two_xx)

lemma writes_append [simp]: "writes (xs @ ys) = writes xs @ writes ys"
  by (induction xs rule: writes.induct) auto

lemma probe_ticks_append:
  "probe_ticks cfg b (xs @ ys) st =
     (case probe_ticks cfg b xs st of (st', e) \<Rightarrow> (case probe_ticks cfg b ys st' of (st'', e') \<Rightarrow> (st'', e @ e')))"
  by (induction xs arbitrary: st) (auto split: prod.splits)

text \<open>The counters are the lengths of the current runs.\<close>

definition run_length :: "bool \<Rightarrow> bool list \<Rightarrow> nat" where
  "run_length v oks = length (takeWhile (\<lambda>x. x = v) (rev oks))"

lemma run_length_snoc: "run_length v (oks @ [x]) = (if x = v then Suc (run_length v oks) else 0)"
  by (simp add: run_length_def)

lemma run_length_Nil [simp]: "run_length v [] = 0"
  by (simp add: run_length_def)

lemma probe_counters:
  "consecutiveOK (fst (probe_ticks cfg b oks probe_init)) = int (run_length True oks)
   \<and> consecutiveFail (fst (probe_ticks cfg b oks probe_init)) = int (run_length False oks)"
proof (induction oks rule: rev_induct)
  case Nil
  then show ?case by (simp add: probe_init_def)
next
  case (snoc x oks)
  then show ?case
    by (cases "probe_ticks cfg b oks probe_init")
      (auto simp: probe_ticks_append probe_tick_def run_length_snoc Let_def)
qed

text \<open>
  When the loop writes: a tick writes exactly when the verdict flips, and it flips exactly when the
  run of opposite results reaches its threshold.
\<close>

lemma probe_tick_writes:
  "writes (snd (probe_tick cfg b ok st)) =
     (if currentHealthy (fst (probe_tick cfg b ok st)) = currentHealthy st then []
      else [currentHealthy (fst (probe_tick cfg b ok st))])"
  by (auto simp: probe_tick_def Let_def)

lemma alternates_append:
  "alternates v (xs @ ys) = (alternates v xs \<and> alternates (if xs = [] then v else last xs) ys)"
  by (induction xs arbitrary: v) auto

lemma probe_writes_alternate:
  "alternates (currentHealthy st) (writes (snd (probe_ticks cfg b oks st)))
   \<and> currentHealthy (fst (probe_ticks cfg b oks st))
       = (if writes (snd (probe_ticks cfg b oks st)) = [] then currentHealthy st
          else last (writes (snd (probe_ticks cfg b oks st))))"
proof (induction oks rule: rev_induct)
  case Nil
  then show ?case by simp
next
  case (snoc x oks)
  obtain st1 e1 where s1: "probe_ticks cfg b oks st = (st1, e1)" by fastforce
  obtain st2 e2 where s2: "probe_tick cfg b x st1 = (st2, e2)" by fastforce
  have w: "writes e2 = (if currentHealthy st2 = currentHealthy st1 then [] else [currentHealthy st2])"
    using probe_tick_writes [of cfg b x st1] s2 by simp
  show ?case using snoc s1 s2 w
    by (auto simp: probe_ticks_append alternates_append split: if_splits)
qed

lemma probe_ticks_stay_healthy:
  assumes "currentHealthy st" "consecutiveFail st + int (length oks) < UnhealthyThreshold cfg" "0 \<le> consecutiveFail st"
  shows "currentHealthy (fst (probe_ticks cfg b oks st)) \<and> writes (snd (probe_ticks cfg b oks st)) = []"
  using assms
proof (induction oks arbitrary: st)
  case Nil
  then show ?case by simp
next
  case (Cons x oks)
  let ?st = "fst (probe_tick cfg b x st)"
  have "currentHealthy ?st" "writes (snd (probe_tick cfg b x st)) = []"
    "0 \<le> consecutiveFail ?st" "consecutiveFail ?st + int (length oks) < UnhealthyThreshold cfg"
    using Cons.prems by (auto simp: probe_tick_def Let_def)
  with Cons.IH [of ?st] show ?case
    by (cases "probe_tick cfg b x st"; cases "probe_ticks cfg b oks ?st") auto
qed

lemma probe_ticks_all_ok:
  assumes "currentHealthy st"
  shows "currentHealthy (fst (probe_ticks cfg b (replicate k True) st))
       \<and> snd (probe_ticks cfg b (replicate k True) st) = []"
  using assms
proof (induction k arbitrary: st)
  case 0
  then show ?case by simp
next
  case (Suc k)
  let ?st = "fst (probe_tick cfg b True st)"
  have "currentHealthy ?st" "snd (probe_tick cfg b True st) = []"
    using Suc.prems by (auto simp: probe_tick_def Let_def)
  with Suc.IH [of ?st] show ?case
    by (cases "probe_tick cfg b True st"; cases "probe_ticks cfg b (replicate k True) ?st") auto
qed

lemma probe_tick_run:
  "currentHealthy (fst (probe_ticks cfg b (oks @ [x]) probe_init)) =
     (if currentHealthy (fst (probe_ticks cfg b oks probe_init))
      then x \<or> int (run_length False (oks @ [x])) < UnhealthyThreshold cfg
      else x \<and> HealthyThreshold cfg \<le> int (run_length True (oks @ [x])))"
proof -
  obtain st e where s: "probe_ticks cfg b oks probe_init = (st, e)" by fastforce
  have c: "consecutiveOK st = int (run_length True oks)" "consecutiveFail st = int (run_length False oks)"
    using probe_counters [of cfg b oks] s by auto
  show ?thesis
    by (auto simp: probe_ticks_append s probe_tick_def Let_def run_length_snoc c algebra_simps)
qed

text \<open>
  C22: the scheduler applies both thresholds with hysteresis. After any history of replies from the
  start, the next reply takes a backend out exactly when it is a failure that completes a run of
  \<open>UnhealthyThreshold\<close> failures, and puts it back exactly when it is a success that completes a run
  of \<open>HealthyThreshold\<close> successes; a 2xx status is a success, anything else a failure. The state
  writer is called exactly on these flips, alternately with \<open>false\<close> and \<open>true\<close>, and its last call
  is the current verdict.
\<close>

theorem probe_hysteresis:
  fixes cfg b rs
  defines "H \<equiv> \<lambda>rs. currentHealthy (fst (probe_loop cfg b (map Tick rs) probe_init))"
    and "W \<equiv> \<lambda>rs. writes (snd (probe_loop cfg b (map Tick rs) probe_init))"
  shows "H (rs @ [r]) =
      (if H rs then two_xx r \<or> int (run_length False (map two_xx (rs @ [r]))) < UnhealthyThreshold cfg
       else two_xx r \<and> HealthyThreshold cfg \<le> int (run_length True (map two_xx (rs @ [r]))))
    \<and> W (rs @ [r]) = W rs @ (if H (rs @ [r]) = H rs then [] else [H (rs @ [r])])
    \<and> alternates True (W rs) \<and> H rs = (if W rs = [] then True else last (W rs))"
proof -
  obtain st e where s: "probe_ticks cfg b (map two_xx rs) probe_init = (st, e)" by fastforce
  have "W (rs @ [r]) = W rs @ (if H (rs @ [r]) = H rs then [] else [H (rs @ [r])])"
    using probe_tick_writes [of cfg b "two_xx r" st] s
    by (cases "probe_tick cfg b (two_xx r) st")
      (auto simp: W_def H_def probe_loop_ticks probe_ticks_append)
  moreover have "H (rs @ [r]) =
      (if H rs then two_xx r \<or> int (run_length False (map two_xx (rs @ [r]))) < UnhealthyThreshold cfg
       else two_xx r \<and> HealthyThreshold cfg \<le> int (run_length True (map two_xx (rs @ [r]))))"
    unfolding H_def probe_loop_ticks map_append list.map by (rule probe_tick_run)
  moreover have "alternates True (W rs)" "H rs = (if W rs = [] then True else last (W rs))"
    using probe_writes_alternate [of probe_init cfg b "map two_xx rs"]
    by (simp_all add: H_def W_def probe_loop_ticks probe_init_def)
  ultimately show ?thesis by blast
qed

text \<open>
  The loop starts from the verdict healthy whatever the health map holds, so as long as every probe
  succeeds it never calls the state writer.
\<close>

lemma probe_restart_silent:
  assumes "\<forall>r\<in>set rs. two_xx r"
  shows "snd (probe_loop cfg b (map Tick rs) probe_init) = []"
proof -
  have "map two_xx rs = replicate (length rs) True"
    using assms by (intro replicate_eqI) auto
  then show ?thesis
    using probe_ticks_all_ok [of probe_init cfg b "length rs"]
    by (simp add: probe_loop_ticks probe_init_def)
qed

end
