(* ===== verification/NetHttp.thy ===== *)
theory NetHttp
  imports Prelude
begin

text \<open>
  The parts of Go's \<^verbatim>\<open>net\<close> and \<^verbatim>\<open>net/http\<close> packages that the sources call: splitting and joining
  \<open>host:port\<close> pairs, the header map with its canonical keys, and \<^verbatim>\<open>http.Error\<close>.
\<close>

section \<open>Addresses\<close>

fun index_byte :: "char \<Rightarrow> string \<Rightarrow> nat option" where
  "index_byte c [] = None"
| "index_byte c (x # xs) = (if x = c then Some 0 else map_option Suc (index_byte c xs))"

definition last_index_byte :: "char \<Rightarrow> string \<Rightarrow> nat option" where
  "last_index_byte c s = map_option (\<lambda>i. length s - 1 - i) (index_byte c (rev s))"

text \<open>\<^verbatim>\<open>net.SplitHostPort\<close>: nothing stands for every \<open>AddrError\<close>.\<close>

definition split_host_port :: "string \<Rightarrow> (string \<times> string) option" where
  "split_host_port hp =
     (case last_index_byte (CHR '':'') hp of
        None \<Rightarrow> None
      | Some i \<Rightarrow>
          if hd hp = CHR ''['' then
            (case index_byte (CHR '']'') hp of
               None \<Rightarrow> None
             | Some e \<Rightarrow>
                 if e + 1 \<noteq> i then None
                 else if CHR ''['' \<in> set (drop 1 hp) \<or> CHR '']'' \<in> set (drop (e + 1) hp) then None
                 else Some (take (e - 1) (drop 1 hp), drop (i + 1) hp))
          else if CHR '':'' \<in> set (take i hp) then None
          else if CHR ''['' \<in> set hp \<or> CHR '']'' \<in> set hp then None
          else Some (take i hp, drop (i + 1) hp))"

text \<open>\<^verbatim>\<open>net.JoinHostPort\<close>.\<close>

definition join_host_port :: "string \<Rightarrow> string \<Rightarrow> string" where
  "join_host_port host port =
     (if CHR '':'' \<in> set host \<or> CHR ''%'' \<in> set host
      then ''['' @ host @ '']:'' @ port else host @ '':'' @ port)"

lemma index_byte_append:
  "c \<notin> set xs \<Longrightarrow> index_byte c (xs @ c # ys) = Some (length xs)"
  by (induction xs) auto

lemma last_index_byte_append:
  "c \<notin> set ys \<Longrightarrow> last_index_byte c (xs @ c # ys) = Some (length xs)"
  by (simp add: last_index_byte_def index_byte_append [of c "rev ys" "rev xs", simplified])

lemma split_join_host_port:
  assumes "CHR ''['' \<notin> set host" "CHR '']'' \<notin> set host"
    and "CHR '':'' \<notin> set port" "CHR ''['' \<notin> set port" "CHR '']'' \<notin> set port"
  shows "split_host_port (join_host_port host port) = Some (host, port)"
proof (cases "CHR '':'' \<in> set host \<or> CHR ''%'' \<in> set host")
  case True
  have l: "last_index_byte (CHR '':'') (CHR ''['' # host @ CHR '']'' # CHR '':'' # port) = Some (length host + 2)"
    using last_index_byte_append [of "CHR '':''" port "CHR ''['' # host @ '']''"] assms(3) by simp
  have i: "index_byte (CHR '']'') (CHR ''['' # host @ CHR '']'' # CHR '':'' # port) = Some (length host + 1)"
    using index_byte_append [of "CHR '']''" "CHR ''['' # host" "CHR '':'' # port"] assms(2) by simp
  from True show ?thesis
    using assms l i by (simp add: join_host_port_def split_host_port_def)
next
  case False
  then have l: "last_index_byte (CHR '':'') (host @ CHR '':'' # port) = Some (length host)"
    using last_index_byte_append assms(3) by simp
  have h: "hd (host @ CHR '':'' # port) \<noteq> CHR ''[''"
    using assms(1) by (cases host) auto
  from False show ?thesis
    using assms l h by (simp add: join_host_port_def split_host_port_def)
qed

section \<open>Headers\<close>

type_synonym Header = "string \<rightharpoonup> string list"

definition is_letter :: "char \<Rightarrow> bool" where
  "is_letter c = (let k = (of_char c :: nat) in 65 \<le> k \<and> k \<le> 90 \<or> 97 \<le> k \<and> k \<le> 122)"

definition is_digit :: "char \<Rightarrow> bool" where
  "is_digit c = (let k = (of_char c :: nat) in 48 \<le> k \<and> k \<le> 57)"

text \<open>The bytes of an RFC 7230 token.\<close>

definition token_char :: "char \<Rightarrow> bool" where
  "token_char c = (is_letter c \<or> is_digit c \<or> c \<in> set ''!#$%&*+-.^_`|~'' \<or> c = CHR 0x27)"

fun canonical_chars :: "bool \<Rightarrow> string \<Rightarrow> string" where
  "canonical_chars up [] = []"
| "canonical_chars up (c # cs) =
     (if up then upper_char c else lower_char c) # canonical_chars (c = CHR ''-'') cs"

text \<open>\<^verbatim>\<open>textproto.CanonicalMIMEHeaderKey\<close>: a key with a byte that is no token byte is left alone.\<close>

definition canonical_key :: "string \<Rightarrow> string" where
  "canonical_key s = (if list_all token_char s then canonical_chars True s else s)"

definition Header_Del :: "string \<Rightarrow> Header \<Rightarrow> Header" where
  "Header_Del key h = h(canonical_key key := None)"

definition Header_Set :: "string \<Rightarrow> string \<Rightarrow> Header \<Rightarrow> Header" where
  "Header_Set key v h = h(canonical_key key \<mapsto> [v])"

text \<open>The first value of the key, or the empty string.\<close>

definition Header_Get :: "string \<Rightarrow> Header \<Rightarrow> string" where
  "Header_Get key h = (case h (canonical_key key) of Some (v # vs) \<Rightarrow> v | _ \<Rightarrow> '''')"

section \<open>Responses\<close>

record response =
  StatusCode :: int
  RespHeader :: Header
  RespBody :: string

text \<open>
  \<^verbatim>\<open>http.Error(w, msg, code)\<close> on a writer whose header map is \<open>h\<close>: since Go 1.23 it drops
  \<^verbatim>\<open>Content-Length\<close>.
\<close>

definition http_Error :: "Header \<Rightarrow> string \<Rightarrow> int \<Rightarrow> response" where
  "http_Error h msg code =
     \<lparr>StatusCode = code,
      RespHeader = Header_Set ''X-Content-Type-Options'' ''nosniff''
         (Header_Set ''Content-Type'' ''text/plain; charset=utf-8'' (Header_Del ''Content-Length'' h)),
      RespBody = msg @ [CHR 0x0A]\<rparr>"

text \<open>\<^verbatim>\<open>WriteHeader\<close> panics on a code outside 100 to 999.\<close>

definition valid_code :: "int \<Rightarrow> bool" where
  "valid_code code = (100 \<le> code \<and> code \<le> 999)"

lemma canonical_simps [simp]:
  "canonical_key ''X-Forwarded-For'' = ''X-Forwarded-For''"
  "canonical_key ''X-Forwarded-Proto'' = ''X-Forwarded-Proto''"
  "canonical_key ''X-Haribon-Retries'' = ''X-Haribon-Retries''"
  "canonical_key ''Content-Length'' = ''Content-Length''"
  "canonical_key ''Content-Type'' = ''Content-Type''"
  "canonical_key ''X-Content-Type-Options'' = ''X-Content-Type-Options''"
  by (simp_all add: canonical_key_def token_char_def is_letter_def is_digit_def upper_char_def lower_char_def)

lemma canonical_hop [simp]:
  "canonical_key ''Connection'' = ''Connection''"
  "canonical_key ''Keep-Alive'' = ''Keep-Alive''"
  "canonical_key ''Proxy-Authenticate'' = ''Proxy-Authenticate''"
  "canonical_key ''Proxy-Authorization'' = ''Proxy-Authorization''"
  "canonical_key ''Proxy-Connection'' = ''Proxy-Connection''"
  "canonical_key ''Te'' = ''Te''"
  "canonical_key ''Trailer'' = ''Trailer''"
  "canonical_key ''Transfer-Encoding'' = ''Transfer-Encoding''"
  "canonical_key ''Upgrade'' = ''Upgrade''"
  by (simp_all add: canonical_key_def token_char_def is_letter_def is_digit_def upper_char_def lower_char_def)

section \<open>URLs\<close>

text \<open>
  \<^verbatim>\<open>url.Parse\<close>, as far as its callers look at it: nothing for an error, else the scheme in lower case.
\<close>

definition unhex :: "char \<Rightarrow> nat option" where
  "unhex c =
     (let k = (of_char c :: nat) in
      if 48 \<le> k \<and> k \<le> 57 then Some (k - 48)
      else if 97 \<le> k \<and> k \<le> 102 then Some (k - 87)
      else if 65 \<le> k \<and> k \<le> 70 then Some (k - 55) else None)"

text \<open>Bytes below 0x80 that may stand unescaped in a host.\<close>

definition host_char :: "char \<Rightarrow> bool" where
  "host_char c =
     (is_letter c \<or> is_digit c \<or> c \<in> set ''!$&()*+,;=:[]<>-_.~'' \<or> c = CHR 0x27 \<or> c = CHR 0x22)"

datatype escape_mode = encodePlain | encodeHost | encodeZone

text \<open>\<^verbatim>\<open>unescape\<close> succeeds. \<open>encodePlain\<close> stands for the path, user-info and fragment modes.\<close>

fun unescape_ok :: "escape_mode \<Rightarrow> string \<Rightarrow> bool" where
  "unescape_ok mode [] = True"
| "unescape_ok mode (c # cs) =
     (if c = CHR ''%'' then
        (case cs of
           a # b # cs' \<Rightarrow>
             (case (unhex a, unhex b) of
                (Some x, Some y) \<Rightarrow>
                  (mode = encodeHost \<and> x < 8 \<and> (a, b) \<noteq> (CHR ''2'', CHR ''5'') \<longrightarrow> False)
                  \<and> (mode = encodeZone \<longrightarrow> (a, b) = (CHR ''2'', CHR ''5'') \<or> 16 * x + y = 32
                       \<or> host_char (char_of (16 * x + y)))
                  \<and> unescape_ok mode cs'
              | _ \<Rightarrow> False)
         | _ \<Rightarrow> False)
      else (mode \<noteq> encodePlain \<and> (of_char c :: nat) < 128 \<longrightarrow> host_char c) \<and> unescape_ok mode cs)"

definition validOptionalPort :: "string \<Rightarrow> bool" where
  "validOptionalPort port =
     (case port of [] \<Rightarrow> True | c # ds \<Rightarrow> c = CHR '':'' \<and> list_all is_digit ds)"

fun index_sub :: "string \<Rightarrow> string \<Rightarrow> nat option" where
  "index_sub sub [] = (if sub = [] then Some 0 else None)"
| "index_sub sub (c # cs) = (if has_prefix sub (c # cs) then Some 0 else map_option Suc (index_sub sub cs))"

definition parseHost_ok :: "string \<Rightarrow> bool" where
  "parseHost_ok host =
     (if has_prefix ''['' host then
        (case last_index_byte (CHR '']'') host of
           None \<Rightarrow> False
         | Some i \<Rightarrow>
             validOptionalPort (drop (i + 1) host)
             \<and> (case index_sub ''%25'' (take i host) of
                  Some z \<Rightarrow> unescape_ok encodeHost (take z host)
                    \<and> unescape_ok encodeZone (take (i - z) (drop z host))
                    \<and> unescape_ok encodeHost (drop i host)
                | None \<Rightarrow> unescape_ok encodeHost host))
      else
        (case last_index_byte (CHR '':'') host of
           Some i \<Rightarrow> validOptionalPort (drop i host)
         | None \<Rightarrow> True)
        \<and> unescape_ok encodeHost host)"

definition userinfo_char :: "char \<Rightarrow> bool" where
  "userinfo_char c = (is_letter c \<or> is_digit c \<or> c \<in> set ''-._:~!$&()*+,;=%@'' \<or> c = CHR 0x27)"

definition parseAuthority_ok :: "string \<Rightarrow> bool" where
  "parseAuthority_ok authority =
     (case last_index_byte (CHR ''@'') authority of
        None \<Rightarrow> parseHost_ok authority
      | Some i \<Rightarrow> parseHost_ok (drop (i + 1) authority)
          \<and> list_all userinfo_char (take i authority) \<and> unescape_ok encodePlain (take i authority))"

text \<open>The scheme before the first colon, and the rest; an empty scheme is an error.\<close>

fun getScheme :: "string \<Rightarrow> string \<Rightarrow> string \<Rightarrow> (string \<times> string) option" where
  "getScheme raw acc [] = Some ('''', raw)"
| "getScheme raw acc (c # cs) =
     (if is_letter c then getScheme raw (acc @ [c]) cs
      else if is_digit c \<or> c \<in> set ''+-.'' then
        (if acc = [] then Some ('''', raw) else getScheme raw (acc @ [c]) cs)
      else if c = CHR '':'' then (if acc = [] then None else Some (acc, cs))
      else Some ('''', raw))"

definition url_Parse :: "string \<Rightarrow> string option" where
  "url_Parse rawURL =
     (let u = takeWhile (\<lambda>c. c \<noteq> CHR ''#'') rawURL;
          frag = drop (length u + 1) rawURL
      in
      if list_ex (\<lambda>c. (of_char c :: nat) < 32 \<or> (of_char c :: nat) = 127) u then None
      else if u = ''*'' then (if unescape_ok encodePlain frag then Some '''' else None)
      else
        (case getScheme u [] u of
           None \<Rightarrow> None
         | Some (sch, rest0) \<Rightarrow>
             let rest = takeWhile (\<lambda>c. c \<noteq> CHR ''?'') rest0;
                 ok =
                   (if \<not> has_prefix ''/'' rest then
                      sch \<noteq> '''' \<or> CHR '':'' \<notin> set (takeWhile (\<lambda>c. c \<noteq> CHR ''/'') rest) \<and> unescape_ok encodePlain rest
                    else if (sch \<noteq> '''' \<or> \<not> has_prefix ''///'' rest) \<and> has_prefix ''//'' rest then
                      (let authority = takeWhile (\<lambda>c. c \<noteq> CHR ''/'') (drop 2 rest);
                           path = drop (length authority + 2) rest
                       in parseAuthority_ok authority \<and> unescape_ok encodePlain path)
                    else unescape_ok encodePlain rest)
             in if ok \<and> unescape_ok encodePlain frag then Some (map lower_char sch) else None))"

end
