(* ===== verification/Metrics.thy ===== *)
theory Metrics
  imports NetHttp
begin

text \<open>
  The metrics registry of \<^verbatim>\<open>internal/metrics/metrics.go\<close>. A \<open>Counter\<close> and a \<open>Gauge\<close> are 64-bit words,
  so \<^verbatim>\<open>atomic.AddInt64\<close> wraps; \<open>Load\<close> reads them as signed. The sources never keep a pointer to a
  metric: every use is \<open>reg.Counter(name).Inc()\<close> or the like, which is one update of the registry here.
  Go iterates over a map in an order of its own, so \<open>Render\<close> takes the two orders as arguments.
\<close>

section \<open>State and operations\<close>

type_synonym Counter = u64
type_synonym Gauge = u64

definition Counter_Inc :: "Counter \<Rightarrow> Counter" where
  "Counter_Inc v = v + 1"

definition Counter_Add :: "int \<Rightarrow> Counter \<Rightarrow> Counter" where
  "Counter_Add n v = v + word_of_int n"

definition Counter_Load :: "Counter \<Rightarrow> int" where
  "Counter_Load v = sint v"

definition Counter_Set :: "int \<Rightarrow> Counter \<Rightarrow> Counter" where
  "Counter_Set n v = word_of_int n"

definition Gauge_Set :: "int \<Rightarrow> Gauge \<Rightarrow> Gauge" where
  "Gauge_Set n v = word_of_int n"

definition Gauge_Inc :: "Gauge \<Rightarrow> Gauge" where
  "Gauge_Inc v = v + 1"

definition Gauge_Dec :: "Gauge \<Rightarrow> Gauge" where
  "Gauge_Dec v = v - 1"

definition Gauge_Load :: "Gauge \<Rightarrow> int" where
  "Gauge_Load v = sint v"

record MRegistry =
  counters :: "string \<rightharpoonup> Counter"
  gauges :: "string \<rightharpoonup> Gauge"

definition New_MRegistry :: MRegistry where
  "New_MRegistry = \<lparr>counters = Map.empty, gauges = Map.empty\<rparr>"

text \<open>\<open>r.Counter(name)\<close> creates the metric when it is missing; \<open>op\<close> is the method called on it.\<close>

definition MRegistry_Counter :: "string \<Rightarrow> (Counter \<Rightarrow> Counter) \<Rightarrow> MRegistry \<Rightarrow> MRegistry" where
  "MRegistry_Counter name op r =
     (case counters r name of
        Some c \<Rightarrow> r\<lparr>counters := (counters r)(name \<mapsto> op c)\<rparr>
      | None \<Rightarrow> r\<lparr>counters := (counters r)(name \<mapsto> op 0)\<rparr>)"

definition MRegistry_Gauge :: "string \<Rightarrow> (Gauge \<Rightarrow> Gauge) \<Rightarrow> MRegistry \<Rightarrow> MRegistry" where
  "MRegistry_Gauge name op r =
     (case gauges r name of
        Some g \<Rightarrow> r\<lparr>gauges := (gauges r)(name \<mapsto> op g)\<rparr>
      | None \<Rightarrow> r\<lparr>gauges := (gauges r)(name \<mapsto> op 0)\<rparr>)"

abbreviation newline :: char where
  "newline \<equiv> CHR 0x0A"

definition render_metric :: "string \<Rightarrow> string \<Rightarrow> int \<Rightarrow> string" where
  "render_metric kind name v =
     ''# TYPE '' @ name @ '' '' @ kind @ [newline] @ name @ '' '' @ itoa v @ [newline]"

definition MRegistry_Render :: "string list \<Rightarrow> string list \<Rightarrow> MRegistry \<Rightarrow> string" where
  "MRegistry_Render corder gorder r =
     concat (map (\<lambda>name. render_metric ''counter'' name (Counter_Load (the (counters r name)))) corder)
     @ concat (map (\<lambda>name. render_metric ''gauge'' name (Gauge_Load (the (gauges r name)))) gorder)"

record metrics_reply =
  mr_content_type :: string
  mr_code :: int
  mr_text :: string

definition MRegistry_Handler :: "string list \<Rightarrow> string list \<Rightarrow> MRegistry \<Rightarrow> metrics_reply" where
  "MRegistry_Handler corder gorder r =
     \<lparr>mr_content_type = ''text/plain; version=0.0.4; charset=utf-8'', mr_code = 200,
      mr_text = MRegistry_Render corder gorder r\<rparr>"

definition MetricName :: "string \<Rightarrow> string \<Rightarrow> string \<Rightarrow> string" where
  "MetricName base label value = base @ ''{'' @ label @ [CHR ''='', CHR 0x22] @ value @ [CHR 0x22, CHR ''}'']"

section \<open>Specification vocabulary\<close>

text \<open>An absent metric reads as zero.\<close>

definition counter_value :: "MRegistry \<Rightarrow> string \<Rightarrow> int" where
  "counter_value r name = (case counters r name of None \<Rightarrow> 0 | Some c \<Rightarrow> Counter_Load c)"

definition gauge_value :: "MRegistry \<Rightarrow> string \<Rightarrow> int" where
  "gauge_value r name = (case gauges r name of None \<Rightarrow> 0 | Some g \<Rightarrow> Gauge_Load g)"

text \<open>
  A scraper: every line that is not a comment is a sample, its value the last space-separated field.
\<close>

definition sample_of :: "string \<Rightarrow> (string \<times> int) option" where
  "sample_of line =
     (if line = [] \<or> hd line = CHR ''#'' then None
      else case last_index_byte (CHR '' '') line of
             None \<Rightarrow> None
           | Some i \<Rightarrow> (case atoi (drop (i + 1) line) of None \<Rightarrow> None | Some v \<Rightarrow> Some (take i line, v)))"

definition scrape :: "string \<Rightarrow> (string \<times> int) list" where
  "scrape text = List.map_filter sample_of (split_on newline text)"

definition plain_name :: "string \<Rightarrow> bool" where
  "plain_name name = (name \<noteq> [] \<and> hd name \<noteq> CHR ''#'' \<and> newline \<notin> set name)"

section \<open>Lemmas\<close>

lemma counter_value_update [simp]:
  "counter_value (MRegistry_Counter name op r) n =
     (if n = name then Counter_Load (op (case counters r name of None \<Rightarrow> 0 | Some c \<Rightarrow> c))
      else counter_value r n)"
  by (simp add: counter_value_def MRegistry_Counter_def split: option.splits)

lemma gauge_value_update [simp]:
  "gauge_value (MRegistry_Gauge name op r) n =
     (if n = name then Gauge_Load (op (case gauges r name of None \<Rightarrow> 0 | Some c \<Rightarrow> c))
      else gauge_value r n)"
  by (simp add: gauge_value_def MRegistry_Gauge_def split: option.splits)

lemma counter_gauge_frame [simp]:
  "gauges (MRegistry_Counter name cop r) = gauges r"
  "counters (MRegistry_Gauge name gop r) = counters r"
  by (simp_all add: MRegistry_Counter_def MRegistry_Gauge_def split: option.splits)

lemma value_frame [simp]:
  "gauge_value (MRegistry_Counter name cop r) = gauge_value r"
  "counter_value (MRegistry_Gauge name gop r) = counter_value r"
  by (simp_all add: gauge_value_def counter_value_def fun_eq_iff)


lemma sint_u64_range: "- (2 ^ 63) \<le> sint (w :: u64)" "sint (w :: u64) < 2 ^ 63"
  using sint_greater_eq [of w] sint_less [of w] by simp_all

lemma itoa_plain: "newline \<notin> set (itoa v)" "CHR '' '' \<notin> set (itoa v)"
  using itoa_chars [of newline v] itoa_chars [of "CHR '' ''" v] by auto

lemma sample_of_line:
  assumes "plain_name name" "- (2 ^ 63) \<le> v" "v < 2 ^ 63"
  shows "sample_of (name @ '' '' @ itoa v) = Some (name, v)"
  using assms last_index_byte_append [OF itoa_plain(2), of name v] atoi_itoa [OF assms(2,3)]
  by (auto simp: sample_of_def plain_name_def)

lemma scrape_metric:
  assumes "plain_name name" "newline \<notin> set kind" "- (2 ^ 63) \<le> v" "v < 2 ^ 63"
  shows "scrape (render_metric kind name v @ rest) = (name, v) # scrape rest"
proof -
  have "split_on newline (render_metric kind name v @ rest)
      = (''# TYPE '' @ name @ '' '' @ kind) # (name @ '' '' @ itoa v) # split_on newline rest"
    using split_on_append [of newline "''# TYPE '' @ name @ '' '' @ kind" "name @ '' '' @ itoa v @ newline # rest"]
      split_on_append [of newline "name @ '' '' @ itoa v" rest] assms itoa_plain
    by (simp add: render_metric_def plain_name_def)
  then show ?thesis
    using sample_of_line [OF assms(1,3,4)]
    by (simp add: scrape_def List.map_filter_simps) (simp add: sample_of_def)
qed

lemma scrape_metrics:
  assumes "\<forall>n\<in>set ns. plain_name n" "newline \<notin> set kind" "\<forall>n\<in>set ns. - (2 ^ 63) \<le> f n \<and> f n < 2 ^ 63"
  shows "scrape (concat (map (\<lambda>n. render_metric kind n (f n)) ns) @ rest) = map (\<lambda>n. (n, f n)) ns @ scrape rest"
  using assms by (induction ns) (simp_all add: scrape_metric)

section \<open>Properties\<close>

text \<open>
  C34: what \<^verbatim>\<open>/metrics\<close> prints can be read back exactly. Whatever order Go iterates the two maps in, the
  samples of the rendered text are the registered counters and gauges, each once, with their current
  signed values, including negative ones; comment lines add nothing.
\<close>

theorem metrics_scrape_roundtrip:
  assumes "set corder = dom (counters r)" "set gorder = dom (gauges r)"
    and names: "\<forall>n\<in>dom (counters r) \<union> dom (gauges r). plain_name n"
  shows "scrape (mr_text (MRegistry_Handler corder gorder r))
       = map (\<lambda>n. (n, counter_value r n)) corder @ map (\<lambda>n. (n, gauge_value r n)) gorder"
proof -
  have c: "scrape (concat (map (\<lambda>n. render_metric ''counter'' n (Counter_Load (the (counters r n)))) corder) @ rest)
      = map (\<lambda>n. (n, Counter_Load (the (counters r n)))) corder @ scrape rest" for rest
    using assms sint_u64_range by (intro scrape_metrics) (auto simp: Counter_Load_def)
  have g: "scrape (concat (map (\<lambda>n. render_metric ''gauge'' n (Gauge_Load (the (gauges r n)))) gorder) @ [])
      = map (\<lambda>n. (n, Gauge_Load (the (gauges r n)))) gorder @ scrape []"
    using assms sint_u64_range by (intro scrape_metrics) (auto simp: Gauge_Load_def)
  have e: "scrape [] = []" by (simp add: scrape_def sample_of_def List.map_filter_simps)
  have "map (\<lambda>n. (n, Counter_Load (the (counters r n)))) corder = map (\<lambda>n. (n, counter_value r n)) corder"
    using assms(1) by (intro map_cong) (auto simp: counter_value_def)
  moreover have "map (\<lambda>n. (n, Gauge_Load (the (gauges r n)))) gorder = map (\<lambda>n. (n, gauge_value r n)) gorder"
    using assms(2) by (intro map_cong) (auto simp: gauge_value_def)
  ultimately show ?thesis
    using g by (simp add: MRegistry_Handler_def MRegistry_Render_def c e)
qed

theorem metrics_scrape_roundtrip_witness:
  "scrape (mr_text (MRegistry_Handler [''b'', ''a''] [''g'']
      (MRegistry_Gauge ''g'' Gauge_Dec (MRegistry_Counter ''b'' (Counter_Add 7)
        (MRegistry_Counter ''a'' Counter_Inc New_MRegistry)))))
   = [(''b'', 7), (''a'', 1), (''g'', -1)]"
proof -
  let ?r = "MRegistry_Gauge ''g'' Gauge_Dec (MRegistry_Counter ''b'' (Counter_Add 7)
        (MRegistry_Counter ''a'' Counter_Inc New_MRegistry))"
  have d: "set [''b'', ''a''] = dom (counters ?r)" "set [''g''] = dom (gauges ?r)"
    by (auto simp: MRegistry_Gauge_def MRegistry_Counter_def New_MRegistry_def)
  have n: "\<forall>n\<in>dom (counters ?r) \<union> dom (gauges ?r). plain_name n"
    unfolding d [symmetric] by (simp add: plain_name_def)
  show ?thesis
    using metrics_scrape_roundtrip [OF d n]
    by (simp add: counter_value_def gauge_value_def MRegistry_Gauge_def MRegistry_Counter_def New_MRegistry_def
        Counter_Add_def Counter_Inc_def Gauge_Dec_def Counter_Load_def Gauge_Load_def)
qed

end
