(* ===== verification/Proxy.thy ===== *)
theory Proxy
  imports Balancer Metrics
begin

text \<open>
  The reverse-proxy handler of \<^verbatim>\<open>internal/proxy/handler.go\<close>: header hygiene, the retry policy, the
  attempt loop and the two ways a request ends.

  The handler holds interfaces, so it is modelled over any state \<open>'s\<close> behind them: \<open>Balancer_iface\<close>
  carries \<open>Next\<close>, \<open>NextForIP\<close> (present when the balancer is address-aware) and \<open>Done\<close>,
  \<open>BreakRecorder\<close> the two breaker reports, \<open>h_reg\<close> the update of the shared metrics registry and
  \<open>h_logger\<close> the log callback; the last three may be \<^verbatim>\<open>nil\<close>. The health checker is the argument the
  balancer's \<open>Next\<close> is already applied to.

  What the handler meets outside is a record \<open>env\<close>: the clock, whether \<^verbatim>\<open>http.NewRequestWithContext\<close>
  accepts a method and URL, what \<^verbatim>\<open>client.Do\<close> returns on each attempt (the body being what \<^verbatim>\<open>io.Copy\<close> reads
  before the timeout), and what the other goroutines do
  to the shared state while a request is in flight (\<open>env_during\<close>) and during the back-off sleep
  (\<open>env_backoff\<close>). Beside the new state, a run returns the calls it made, in order.
\<close>

section \<open>Header hygiene and retry policy\<close>

definition hopByHopHeaders :: "string list" where
  "hopByHopHeaders =
     [''Connection'', ''Keep-Alive'', ''Proxy-Authenticate'', ''Proxy-Authorization'',
      ''Proxy-Connection'', ''Te'', ''Trailer'', ''Transfer-Encoding'', ''Upgrade'']"

text \<open>The names listed in the \<^verbatim>\<open>Connection\<close> header.\<close>

definition connection_names :: "Header \<Rightarrow> string list" where
  "connection_names h =
     (case h ''Connection'' of
        None \<Rightarrow> []
      | Some vs \<Rightarrow> concat (map (\<lambda>v. map trim_space (split_on (CHR '','') v)) vs))"

definition stripHopByHop :: "Header \<Rightarrow> Header" where
  "stripHopByHop h = fold Header_Del hopByHopHeaders (fold Header_Del (connection_names h) h)"

definition idempotentMethod :: "string \<Rightarrow> bool" where
  "idempotentMethod m = (m \<in> set [''GET'', ''HEAD'', ''OPTIONS'', ''PUT'', ''DELETE''])"

definition retryableStatus :: "int \<Rightarrow> bool" where
  "retryableStatus code = (code = 502 \<or> code = 503 \<or> code = 504)"

section \<open>The handler\<close>

record proxy_LogEntry =
  pl_Method :: string
  pl_Path :: string
  pl_Backend :: string
  pl_Status :: int
  pl_DurationMS :: int
  pl_Retries :: int
  pl_Level :: string

record 's BreakRecorder =
  br_RecordSuccess :: "url \<Rightarrow> 's \<Rightarrow> 's"
  br_RecordFailure :: "time \<Rightarrow> url \<Rightarrow> 's \<Rightarrow> 's"

record 's Balancer_iface =
  bi_Next :: "time \<Rightarrow> 's \<Rightarrow> (bal_error, url) go \<times> 's"
  bi_NextForIP :: "(time \<Rightarrow> string \<Rightarrow> 's \<Rightarrow> (bal_error, url) go \<times> 's) option"
  bi_Done :: "url \<Rightarrow> 's \<Rightarrow> 's"

record proxy_Config =
  HandlerTimeout :: time
  MaxRetries :: int

record 's Handler =
  h_bal :: "'s Balancer_iface"
  h_breaker :: "'s BreakRecorder option"
  h_client_timeout :: time
  h_cfg :: proxy_Config
  h_reg :: "((MRegistry \<Rightarrow> MRegistry) \<Rightarrow> 's \<Rightarrow> 's) option"
  h_logger :: "(proxy_LogEntry \<Rightarrow> 's \<Rightarrow> 's) option"

text \<open>\<open>client\<close> is the timeout of the client passed in, or nothing for \<^verbatim>\<open>nil\<close>.\<close>

definition New_Handler :: "'s Balancer_iface \<Rightarrow> 's BreakRecorder option \<Rightarrow> time option \<Rightarrow> proxy_Config
    \<Rightarrow> ((MRegistry \<Rightarrow> MRegistry) \<Rightarrow> 's \<Rightarrow> 's) option \<Rightarrow> (proxy_LogEntry \<Rightarrow> 's \<Rightarrow> 's) option \<Rightarrow> 's Handler" where
  "New_Handler bal breaker client cfg reg logger =
     (let timeout = (case client of None \<Rightarrow> 5 * second | Some t \<Rightarrow> t);
          cfg1 = (if HandlerTimeout cfg \<le> 0 then cfg\<lparr>HandlerTimeout := 10 * second\<rparr> else cfg);
          cfg2 = (if MaxRetries cfg1 < 0 then cfg1\<lparr>MaxRetries := 0\<rparr> else cfg1)
      in \<lparr>h_bal = bal, h_breaker = breaker, h_client_timeout = timeout, h_cfg = cfg2, h_reg = reg,
          h_logger = logger\<rparr>)"

record request =
  rq_Method :: string
  rq_Path :: string
  rq_URI :: string
  rq_RemoteAddr :: string
  rq_TLS :: bool
  rq_Header :: Header
  rq_Body :: "string option"

record out_request =
  or_Method :: string
  or_URL :: string
  or_Header :: Header
  or_Body :: "string option"
  or_Timeout :: time

datatype phase = AtPick | AtReport | AtLog | AtGauge

record 's env =
  env_start :: time
  env_end :: time
  env_clock :: "nat \<Rightarrow> phase \<Rightarrow> time"
  env_newreq :: "string \<Rightarrow> string \<Rightarrow> bool"
  env_do :: "nat \<Rightarrow> out_request \<Rightarrow> response option"
  env_during :: "nat \<Rightarrow> 's \<Rightarrow> 's"
  env_backoff :: "nat \<Rightarrow> 's \<Rightarrow> 's"

datatype call =
    NoBackend
  | Picked url
  | Sent nat url out_request
  | DoneCall url
  | SuccessCall url
  | FailureCall url

definition pickBackend :: "'s Handler \<Rightarrow> time \<Rightarrow> string \<Rightarrow> 's \<Rightarrow> (bal_error, url) go \<times> 's" where
  "pickBackend h now clientIP s =
     (case bi_NextForIP (h_bal h) of
        Some nextForIP \<Rightarrow> nextForIP now clientIP s
      | None \<Rightarrow> bi_Next (h_bal h) now s)"

definition incCounter :: "'s Handler \<Rightarrow> string \<Rightarrow> string \<Rightarrow> string \<Rightarrow> 's \<Rightarrow> 's" where
  "incCounter h name label value s =
     (case h_reg h of
        None \<Rightarrow> s
      | Some upd \<Rightarrow>
          let key = (if label \<noteq> '''' then MetricName name label value else name)
          in upd (MRegistry_Counter key Counter_Inc) s)"

definition setDurationGauge :: "'s Handler \<Rightarrow> url \<Rightarrow> int \<Rightarrow> 's \<Rightarrow> 's" where
  "setDurationGauge h server ms s =
     (case h_reg h of
        None \<Rightarrow> s
      | Some upd \<Rightarrow> upd (MRegistry_Gauge (MetricName ''haribon_last_duration_ms'' ''backend'' server) (Gauge_Set ms)) s)"

definition report_failure :: "'s Handler \<Rightarrow> time \<Rightarrow> url \<Rightarrow> 's \<Rightarrow> 's \<times> call list" where
  "report_failure h now u s =
     (case h_breaker h of None \<Rightarrow> (s, []) | Some b \<Rightarrow> (br_RecordFailure b now u s, [FailureCall u]))"

definition report_success :: "'s Handler \<Rightarrow> url \<Rightarrow> 's \<Rightarrow> 's \<times> call list" where
  "report_success h u s =
     (case h_breaker h of None \<Rightarrow> (s, []) | Some b \<Rightarrow> (br_RecordSuccess b u s, [SuccessCall u]))"

definition log_entry :: "'s Handler \<Rightarrow> proxy_LogEntry \<Rightarrow> 's \<Rightarrow> 's" where
  "log_entry h e s = (case h_logger h of None \<Rightarrow> s | Some logger \<Rightarrow> logger e s)"

definition millis_since :: "time \<Rightarrow> time \<Rightarrow> int" where
  "millis_since start now = (now - start) div 1000000"

text \<open>The headers of the request sent on: copied, stripped, and extended with the client's address.\<close>

definition forward_header :: "request \<Rightarrow> string \<Rightarrow> string \<Rightarrow> Header" where
  "forward_header r clientIP proto =
     (let h1 = stripHopByHop (Map.empty ++ rq_Header r);
          prior = Header_Get ''X-Forwarded-For'' h1;
          h2 = (if prior \<noteq> '''' then Header_Set ''X-Forwarded-For'' (prior @ '', '' @ clientIP) h1
                else Header_Set ''X-Forwarded-For'' clientIP h1)
      in Header_Set ''X-Forwarded-Proto'' proto h2)"

definition delivered_header :: "response \<Rightarrow> int \<Rightarrow> Header" where
  "delivered_header resp retries =
     (let h1 = Map.empty ++ Header_Del ''Content-Length'' (stripHopByHop (RespHeader resp))
      in if retries > 0 then Header_Set ''X-Haribon-Retries'' (itoa retries) h1 else h1)"

definition responses_counter :: "url \<Rightarrow> int \<Rightarrow> string" where
  "responses_counter server code =
     ''haribon_responses_total{backend='' @ [CHR 0x22] @ server @ [CHR 0x22] @ '',code='' @ [CHR 0x22]
       @ itoa code @ [CHR 0x22] @ ''}''"

text \<open>How one iteration of the loop ends.\<close>

datatype attempt_end = Break | Continue | Return response | Crash

text \<open>The success path, after \<^verbatim>\<open>client.Do\<close> returned \<open>resp\<close> and \<open>Done\<close> was called.\<close>

definition deliver :: "'s Handler \<Rightarrow> 's env \<Rightarrow> request \<Rightarrow> nat \<Rightarrow> int \<Rightarrow> url \<Rightarrow> response \<Rightarrow> 's
    \<Rightarrow> attempt_end \<times> 's \<times> call list" where
  "deliver h env r attempt retries server resp s =
     (case report_success h server s of (s1, calls) \<Rightarrow>
        if \<not> valid_code (StatusCode resp) then (Crash, s1, calls)
        else
          let s2 = incCounter h (responses_counter server (StatusCode resp)) '''' '''' s1;
              s3 = log_entry h
                \<lparr>pl_Method = rq_Method r, pl_Path = rq_Path r, pl_Backend = server, pl_Status = StatusCode resp,
                 pl_DurationMS = millis_since (env_start env) (env_clock env attempt AtLog),
                 pl_Retries = retries, pl_Level = ''info''\<rparr> s2;
              s4 = setDurationGauge h server (millis_since (env_start env) (env_clock env attempt AtGauge)) s3
          in (Return \<lparr>StatusCode = StatusCode resp, RespHeader = delivered_header resp retries,
                      RespBody = RespBody resp\<rparr>, s4, calls))"

text \<open>One iteration of the loop, from the pick.\<close>

definition do_attempt :: "'s Handler \<Rightarrow> 's env \<Rightarrow> request \<Rightarrow> string \<Rightarrow> string \<Rightarrow> string \<Rightarrow> int \<Rightarrow> nat \<Rightarrow> int \<Rightarrow> 's
    \<Rightarrow> attempt_end \<times> 's \<times> call list" where
  "do_attempt h env r clientIP proto bodyBuf maxAttempts attempt retries s =
     (case pickBackend h (env_clock env attempt AtPick) clientIP s of
        (Panic, s1) \<Rightarrow> (Crash, s1, [])
      | (Fail e, s1) \<Rightarrow> (Break, s1, [NoBackend])
      | (Ok server, s1) \<Rightarrow>
          let s2 = incCounter h ''haribon_requests_total'' ''backend'' server s1;
              idem = idempotentMethod (rq_Method r);
              reqBody = (if idem then Some bodyBuf else rq_Body r);
              targetURL = server @ rq_URI r;
              now = env_clock env attempt AtReport
          in
          if \<not> env_newreq env (rq_Method r) targetURL then
            (case report_failure h now server (bi_Done (h_bal h) server s2) of (s3, rep) \<Rightarrow>
               (Continue, s3, [Picked server, DoneCall server] @ rep))
          else
            let req = \<lparr>or_Method = rq_Method r, or_URL = targetURL,
                       or_Header = forward_header r clientIP proto, or_Body = reqBody,
                       or_Timeout = HandlerTimeout (h_cfg h)\<rparr>;
                s3 = bi_Done (h_bal h) server (env_during env attempt s2);
                before = [Picked server, Sent attempt server req, DoneCall server]
            in
            (case env_do env attempt req of
               None \<Rightarrow>
                 (case report_failure h now server s3 of (s4, rep) \<Rightarrow> (Continue, s4, before @ rep))
             | Some resp \<Rightarrow>
                 if retryableStatus (StatusCode resp) \<and> idem \<and> int attempt < maxAttempts - 1 then
                   (case report_failure h now server s3 of (s4, rep) \<Rightarrow>
                      (Continue, incCounter h ''haribon_retries_total'' ''backend'' server s4, before @ rep))
                 else
                   (case deliver h env r attempt retries server resp s3 of (res, s4, rep) \<Rightarrow>
                      (res, s4, before @ rep))))"

text \<open>How the loop ends: with a reply written, with all attempts used or no backend left, or in a panic.\<close>

datatype loop_end = Replied response | Exhausted int | Crashed

function attempt_loop :: "'s Handler \<Rightarrow> 's env \<Rightarrow> request \<Rightarrow> string \<Rightarrow> string \<Rightarrow> string \<Rightarrow> int \<Rightarrow> nat \<Rightarrow> int \<Rightarrow> 's
    \<Rightarrow> loop_end \<times> 's \<times> call list" where
  "attempt_loop h env r clientIP proto bodyBuf maxAttempts attempt retries s =
     (if \<not> int attempt < maxAttempts then (Exhausted retries, s, [])
      else
        let retries1 = (if attempt > 0 then retries + 1 else retries);
            s1 = (if attempt > 0 then env_backoff env attempt s else s)
        in
        (case do_attempt h env r clientIP proto bodyBuf maxAttempts attempt retries1 s1 of
           (Break, s2, calls) \<Rightarrow> (Exhausted retries1, s2, calls)
         | (Crash, s2, calls) \<Rightarrow> (Crashed, s2, calls)
         | (Return w, s2, calls) \<Rightarrow> (Replied w, s2, calls)
         | (Continue, s2, calls) \<Rightarrow>
             (case attempt_loop h env r clientIP proto bodyBuf maxAttempts (attempt + 1) retries1 s2 of
                (res, s3, calls') \<Rightarrow> (res, s3, calls @ calls'))))"
  by pat_completeness auto
termination
  by (relation "measure (\<lambda>(h, env, r, ip, pr, b, m, a, re, s). nat (m - int a))") auto

declare attempt_loop.simps [simp del]

definition client_ip :: "request \<Rightarrow> string" where
  "client_ip r = (case split_host_port (rq_RemoteAddr r) of None \<Rightarrow> rq_RemoteAddr r | Some (host, _) \<Rightarrow> host)"

definition max_attempts :: "'s Handler \<Rightarrow> request \<Rightarrow> int" where
  "max_attempts h r = (if idempotentMethod (rq_Method r) then go_int (1 + MaxRetries (h_cfg h)) else 1)"

text \<open>The result is the response written, or nothing when the handler panics.\<close>

definition ServeHTTP :: "'s Handler \<Rightarrow> 's env \<Rightarrow> request \<Rightarrow> 's \<Rightarrow> response option \<times> 's \<times> call list" where
  "ServeHTTP h env r s =
     (let clientIP = client_ip r;
          proto = (if rq_TLS r then ''https'' else ''http'');
          bodyBuf = (case rq_Body r of Some b \<Rightarrow> if idempotentMethod (rq_Method r) then b else '''' | None \<Rightarrow> '''')
      in
      (case attempt_loop h env r clientIP proto bodyBuf (max_attempts h r) 0 0 s of
         (Replied w, s1, calls) \<Rightarrow> (Some w, s1, calls)
       | (Crashed, s1, calls) \<Rightarrow> (None, s1, calls)
       | (Exhausted retries, s1, calls) \<Rightarrow>
           let s2 = log_entry h
                 \<lparr>pl_Method = rq_Method r, pl_Path = rq_Path r, pl_Backend = '''', pl_Status = 503,
                  pl_DurationMS = millis_since (env_start env) (env_end env), pl_Retries = retries,
                  pl_Level = ''error''\<rparr> s1;
               s3 = incCounter h ''haribon_errors_total'' ''reason'' ''all_backends_failed'' s2;
               w = (if retries > 0 then Header_Set ''X-Haribon-Retries'' (itoa retries) Map.empty else Map.empty)
           in (Some (http_Error w ''All backend servers failed'' 503), s3, calls)))"

section \<open>Specification vocabulary\<close>

text \<open>The one request a server may be sent for \<open>r\<close>: only the host part of its URL depends on the server.\<close>

definition request_for :: "'s Handler \<Rightarrow> request \<Rightarrow> url \<Rightarrow> out_request" where
  "request_for h r server =
     \<lparr>or_Method = rq_Method r, or_URL = server @ rq_URI r,
      or_Header = forward_header r (client_ip r) (if rq_TLS r then ''https'' else ''http''),
      or_Body = (if idempotentMethod (rq_Method r) then Some (case rq_Body r of None \<Rightarrow> '''' | Some b \<Rightarrow> b)
                 else rq_Body r),
      or_Timeout = HandlerTimeout (h_cfg h)\<rparr>"

fun sent :: "call list \<Rightarrow> (nat \<times> url \<times> out_request) list" where
  "sent [] = []"
| "sent (Sent n u req # cs) = (n, u, req) # sent cs"
| "sent (_ # cs) = sent cs"

text \<open>
  The call discipline towards balancer and breaker: every pick is followed by at most one request, by
  exactly one \<open>Done\<close> and by exactly one report, all for the picked server, before anything else
  happens; a success ends the request.
\<close>

fun disciplined :: "call list \<Rightarrow> bool" where
  "disciplined [] = True"
| "disciplined [NoBackend] = True"
| "disciplined (Picked u # DoneCall v # FailureCall w # cs) = (v = u \<and> w = u \<and> disciplined cs)"
| "disciplined (Picked u # Sent n v req # DoneCall w # FailureCall x # cs) =
     (v = u \<and> w = u \<and> x = u \<and> disciplined cs)"
| "disciplined (Picked u # Sent n v req # DoneCall w # SuccessCall x # cs) =
     (v = u \<and> w = u \<and> x = u \<and> cs = [])"
| "disciplined _ = False"

text \<open>The answer to attempt \<open>n\<close> makes the handler try again.\<close>

definition gives_up_on :: "'s Handler \<Rightarrow> request \<Rightarrow> nat \<Rightarrow> response option \<Rightarrow> bool" where
  "gives_up_on h r n answer =
     (case answer of
        None \<Rightarrow> True
      | Some resp \<Rightarrow> retryableStatus (StatusCode resp) \<and> idempotentMethod (rq_Method r)
                      \<and> int n < max_attempts h r - 1)"

definition fail_report :: "'s Handler \<Rightarrow> url \<Rightarrow> call list" where
  "fail_report h u = (if h_breaker h = None then [] else [FailureCall u])"

definition success_report :: "'s Handler \<Rightarrow> url \<Rightarrow> call list" where
  "success_report h u = (if h_breaker h = None then [] else [SuccessCall u])"

definition written_reply :: "response \<Rightarrow> nat \<Rightarrow> response" where
  "written_reply resp n = resp\<lparr>RespHeader := delivered_header resp (int n)\<rparr>"

text \<open>The abstract attempt \<open>n\<close>: what it may call and how it may end, whatever the state.\<close>

inductive attempt_spec :: "'s Handler \<Rightarrow> 's env \<Rightarrow> request \<Rightarrow> nat \<Rightarrow> attempt_end \<Rightarrow> call list \<Rightarrow> bool"
  for h env r n where
  no_backend: "attempt_spec h env r n Break [NoBackend]"
| pick_panic: "fst (pickBackend h (env_clock env n AtPick) (client_ip r) s) = Panic \<Longrightarrow> attempt_spec h env r n Crash []"
| bad_request: "\<not> env_newreq env (rq_Method r) (u @ rq_URI r) \<Longrightarrow>
    attempt_spec h env r n Continue (Picked u # DoneCall u # fail_report h u)"
| failed: "gives_up_on h r n (env_do env n (request_for h r u)) \<Longrightarrow>
    attempt_spec h env r n Continue (Picked u # Sent n u (request_for h r u) # DoneCall u # fail_report h u)"
| answered: "env_do env n (request_for h r u) = Some resp \<Longrightarrow> \<not> gives_up_on h r n (Some resp) \<Longrightarrow>
    valid_code (StatusCode resp) \<Longrightarrow>
    attempt_spec h env r n (Return (written_reply resp n))
      (Picked u # Sent n u (request_for h r u) # DoneCall u # success_report h u)"
| bad_code: "env_do env n (request_for h r u) = Some resp \<Longrightarrow> \<not> gives_up_on h r n (Some resp) \<Longrightarrow>
    \<not> valid_code (StatusCode resp) \<Longrightarrow>
    attempt_spec h env r n Crash (Picked u # Sent n u (request_for h r u) # DoneCall u # success_report h u)"

inductive loop_spec :: "'s Handler \<Rightarrow> 's env \<Rightarrow> request \<Rightarrow> nat \<Rightarrow> loop_end \<Rightarrow> call list \<Rightarrow> bool"
  for h env r where
  used_up: "\<not> int n < max_attempts h r \<Longrightarrow> loop_spec h env r n (Exhausted (int (n - 1))) []"
| break: "int n < max_attempts h r \<Longrightarrow> attempt_spec h env r n Break cs \<Longrightarrow> loop_spec h env r n (Exhausted (int n)) cs"
| crash: "int n < max_attempts h r \<Longrightarrow> attempt_spec h env r n Crash cs \<Longrightarrow> loop_spec h env r n Crashed cs"
| return: "int n < max_attempts h r \<Longrightarrow> attempt_spec h env r n (Return w) cs \<Longrightarrow> loop_spec h env r n (Replied w) cs"
| continue: "int n < max_attempts h r \<Longrightarrow> attempt_spec h env r n Continue cs \<Longrightarrow>
    loop_spec h env r (Suc n) res cs' \<Longrightarrow> loop_spec h env r n res (cs @ cs')"

inductive_cases attempt_breakE: "attempt_spec h env r n Break cs"
inductive_cases attempt_continueE: "attempt_spec h env r n Continue cs"
inductive_cases attempt_crashE: "attempt_spec h env r n Crash cs"
inductive_cases attempt_returnE: "attempt_spec h env r n (Return w) cs"

section \<open>The code refines the specification\<close>


lemma report_calls:
  "snd (report_failure h t u s) = fail_report h u"
  "snd (report_success h u s) = success_report h u"
  by (simp_all add: report_failure_def report_success_def fail_report_def success_report_def split: option.splits)

lemma deliver_spec:
  assumes "deliver h env r n (int n) u resp s = (res, s', cs)"
  shows "res = (if valid_code (StatusCode resp) then Return (written_reply resp n) else Crash)
       \<and> cs = success_report h u"
  using assms report_calls(2) [of h u s]
  by (cases "report_success h u s") (auto simp: deliver_def written_reply_def Let_def split: if_splits)

lemma do_attempt_spec:
  assumes "do_attempt h env r (client_ip r) (if rq_TLS r then ''https'' else ''http'')
      (case rq_Body r of Some b \<Rightarrow> if idempotentMethod (rq_Method r) then b else '''' | None \<Rightarrow> '''')
      (max_attempts h r) n (int n) s = (res, s', cs)"
  shows "attempt_spec h env r n res cs"
proof (cases "pickBackend h (env_clock env n AtPick) (client_ip r) s")
  case (Pair p s1)
  show ?thesis
  proof (cases p)
    case (Ok u)
    define s2 where "s2 = incCounter h ''haribon_requests_total'' ''backend'' u s1"
    define s3 where "s3 = bi_Done (h_bal h) u (env_during env n s2)"
    have req: "\<lparr>or_Method = rq_Method r, or_URL = u @ rq_URI r,
        or_Header = forward_header r (client_ip r) (if rq_TLS r then ''https'' else ''http''),
        or_Body = if idempotentMethod (rq_Method r) then Some (case rq_Body r of Some b \<Rightarrow>
            if idempotentMethod (rq_Method r) then b else '''' | None \<Rightarrow> '''') else rq_Body r,
        or_Timeout = HandlerTimeout (h_cfg h)\<rparr> = request_for h r u"
      by (simp add: request_for_def split: option.splits)
    note run = assms [unfolded do_attempt_def Pair Ok, simplified, folded s2_def, unfolded Let_def req, folded s3_def]
    show ?thesis
    proof (cases "env_newreq env (rq_Method r) (u @ rq_URI r)")
      case False
      with run show ?thesis
        using report_calls(1) [of h "env_clock env n AtReport" u "bi_Done (h_bal h) u s2"]
        by (auto split: prod.splits intro: bad_request)
    next
      case True
      show ?thesis
      proof (cases "gives_up_on h r n (env_do env n (request_for h r u))")
        case g: True
        have "res = Continue \<and> cs = Picked u # Sent n u (request_for h r u) # DoneCall u # fail_report h u"
          using run True g report_calls(1) [of h "env_clock env n AtReport" u s3]
          by (auto simp: gives_up_on_def split: option.splits prod.splits if_splits)
        with g show ?thesis by (auto intro: failed)
      next
        case g: False
        then obtain resp where a: "env_do env n (request_for h r u) = Some resp"
          by (auto simp: gives_up_on_def split: option.splits)
        obtain res1 s4 rep where d: "deliver h env r n (int n) u resp s3 = (res1, s4, rep)"
          by (metis prod_cases3)
        have "res = res1 \<and> cs = Picked u # Sent n u (request_for h r u) # DoneCall u # rep"
          using run True g a d by (auto simp: gives_up_on_def)
        then show ?thesis
          using deliver_spec [OF d] answered [OF a] bad_code [OF a] g a by simp
      qed
    qed
  qed (use assms Pair pick_panic [of h env n r s] in \<open>auto simp: do_attempt_def intro: no_backend\<close>)
qed

lemma attempt_loop_spec:
  "attempt_loop h env r (client_ip r) (if rq_TLS r then ''https'' else ''http'')
      (case rq_Body r of Some b \<Rightarrow> if idempotentMethod (rq_Method r) then b else '''' | None \<Rightarrow> '''')
      (max_attempts h r) n (int (n - 1)) s = (res, s', cs) \<Longrightarrow> loop_spec h env r n res cs"
proof (induction "nat (max_attempts h r - int n)" arbitrary: n s res s' cs rule: less_induct)
  case less
  show ?case
  proof (cases "int n < max_attempts h r")
    case True
    define s1 where "s1 = (if n > 0 then env_backoff env n s else s)"
    have ret: "(if n > 0 then int (n - 1) + 1 else int (n - 1)) = int n" by auto
    obtain e s2 c where a: "do_attempt h env r (client_ip r) (if rq_TLS r then ''https'' else ''http'')
        (case rq_Body r of Some b \<Rightarrow> if idempotentMethod (rq_Method r) then b else '''' | None \<Rightarrow> '''')
        (max_attempts h r) n (int n) s1 = (e, s2, c)"
      by (metis prod_cases3)
    note sp = do_attempt_spec [OF a]
    note run = less.prems [unfolded attempt_loop.simps [of _ _ _ _ _ _ _ n] Let_def ret, folded s1_def, unfolded a]
    show ?thesis
    proof (cases e)
      case Continue
      obtain res1 s3 c1 where l: "attempt_loop h env r (client_ip r) (if rq_TLS r then ''https'' else ''http'')
          (case rq_Body r of Some b \<Rightarrow> if idempotentMethod (rq_Method r) then b else '''' | None \<Rightarrow> '''')
          (max_attempts h r) (n + 1) (int n) s2 = (res1, s3, c1)"
        by (metis prod_cases3)
      have "loop_spec h env r (Suc n) res1 c1"
        using less.hyps [of "Suc n" s2 res1 s3 c1] True l by simp
      then show ?thesis
        using run True l Continue sp by (auto intro: continue)
    qed (use run True sp in \<open>auto intro: break crash return\<close>)
  next
    case False
    then have "loop_spec h env r n (Exhausted (int (n - 1))) []" by (rule used_up)
    with False show ?thesis
      using less.prems by (auto simp: attempt_loop.simps [of _ _ _ _ _ _ _ n])
  qed
qed

definition reply_of :: "loop_end \<Rightarrow> response option" where
  "reply_of res =
     (case res of
        Replied w \<Rightarrow> Some w
      | Crashed \<Rightarrow> None
      | Exhausted k \<Rightarrow>
          Some (http_Error (if k > 0 then Header_Set ''X-Haribon-Retries'' (itoa k) Map.empty else Map.empty)
            ''All backend servers failed'' 503))"

lemma ServeHTTP_spec:
  assumes "ServeHTTP h env r s = (w, s', cs)"
  shows "\<exists>res. loop_spec h env r 0 res cs \<and> w = reply_of res"
proof -
  obtain res s1 c where l: "attempt_loop h env r (client_ip r) (if rq_TLS r then ''https'' else ''http'')
      (case rq_Body r of Some b \<Rightarrow> if idempotentMethod (rq_Method r) then b else '''' | None \<Rightarrow> '''')
      (max_attempts h r) 0 0 s = (res, s1, c)"
    by (metis prod_cases3)
  have "c = cs \<and> w = reply_of res"
    using assms l by (cases res) (auto simp: ServeHTTP_def reply_of_def Let_def)
  moreover have "loop_spec h env r 0 res c"
    using attempt_loop_spec [of h env r 0 s res s1 c] l by simp
  ultimately show ?thesis by blast
qed

section \<open>Consequences of the specification\<close>

lemma sent_append [simp]: "sent (xs @ ys) = sent xs @ sent ys"
  by (induction xs rule: sent.induct) auto

lemma sent_reports [simp]: "sent (fail_report h u) = []" "sent (success_report h u) = []"
  by (simp_all add: fail_report_def success_report_def)

lemma attempt_sent:
  "attempt_spec h env r n res cs \<Longrightarrow> sent cs = [] \<or> (\<exists>u. sent cs = [(n, u, request_for h r u)])"
  by (induction rule: attempt_spec.induct) auto

lemma loop_sent:
  "loop_spec h env r n res cs \<Longrightarrow>
     length (sent cs) \<le> nat (max_attempts h r - int n)
     \<and> list_all (\<lambda>(k, u, req). req = request_for h r u) (sent cs)"
proof (induction rule: loop_spec.induct)
  case (continue n cs res cs')
  then show ?case using attempt_sent [OF continue(2)] by fastforce
qed (auto dest!: attempt_sent)

lemma loop_disciplined:
  assumes "h_breaker h \<noteq> None"
  shows "loop_spec h env r n res cs \<Longrightarrow> disciplined cs"
proof (induction rule: loop_spec.induct)
  case (continue n cs res cs')
  from continue(2) show ?case
    by (cases rule: attempt_continueE) (use continue(4) assms in \<open>auto simp: fail_report_def\<close>)
qed (use assms in \<open>auto elim!: attempt_breakE attempt_crashE attempt_returnE simp: success_report_def
      split: if_splits\<close>)

text \<open>The number of picks, of \<open>Done\<close> calls and of reports for one server.\<close>

definition picks :: "url \<Rightarrow> call list \<Rightarrow> nat" where
  "picks u cs = count_list cs (Picked u)"

definition dones :: "url \<Rightarrow> call list \<Rightarrow> nat" where
  "dones u cs = count_list cs (DoneCall u)"

definition reports :: "url \<Rightarrow> call list \<Rightarrow> nat" where
  "reports u cs = count_list cs (SuccessCall u) + count_list cs (FailureCall u)"

lemma disciplined_counts:
  "disciplined cs \<Longrightarrow> dones u cs = picks u cs \<and> reports u cs = picks u cs"
  by (induction cs rule: disciplined.induct) (auto simp: picks_def dones_def reports_def)


lemma attempt_calls_kinds:
  "attempt_spec h env r n res cs \<Longrightarrow> NoBackend \<in> set cs \<longleftrightarrow> res = Break"
  by (induction rule: attempt_spec.induct) (auto simp: fail_report_def success_report_def)







section \<open>Properties\<close>

text \<open>
  C1: retries are bounded, and requests with side effects are sent at most once. A handler built by
  \<open>New\<close> sends a request upstream at most \<open>1 + max_retries\<close> times (a negative setting counts as 0); a
  POST, PATCH or any other method outside GET, HEAD, OPTIONS, PUT, DELETE at most once. Every send is the same request, with
  the same headers and the whole body, whatever the other goroutines do meanwhile.
\<close>

theorem proxy_attempts_bounded:
  fixes bal :: "'s Balancer_iface" and breaker client cfg reg logger
  defines "h \<equiv> New_Handler bal breaker client cfg reg logger"
  shows "length (sent (snd (snd (ServeHTTP h env r s))))
           \<le> (if idempotentMethod (rq_Method r) then 1 + nat (MaxRetries cfg) else 1)
         \<and> list_all (\<lambda>(k, u, req). req = request_for h r u) (sent (snd (snd (ServeHTTP h env r s))))"
proof -
  obtain w s' cs where run: "ServeHTTP h env r s = (w, s', cs)" by (metis prod_cases3)
  from ServeHTTP_spec [OF run] obtain res where "loop_spec h env r 0 res cs" by blast
  from loop_sent [OF this] have n: "length (sent cs) \<le> nat (max_attempts h r)"
    and same: "list_all (\<lambda>(k, u, req). req = request_for h r u) (sent cs)" by simp_all
  have "nat (max_attempts h r) \<le> (if idempotentMethod (rq_Method r) then 1 + nat (MaxRetries cfg) else 1)"
    using go_int_le [of "1 + MaxRetries cfg"] by (auto simp: max_attempts_def h_def New_Handler_def Let_def go_int_small)
  with n same show ?thesis using run by (simp split: if_splits)
qed

text \<open>
  C2: the proxy pays its debts to the balancer and the breaker. With a breaker attached, the calls of
  one request follow the discipline: each pick is answered by exactly one \<open>Done\<close> and exactly one report
  for the same server, in that order and before the next pick, on every path including transport
  errors, malformed targets, retried statuses and a panic while writing the reply. So for every server
  the picks, the \<open>Done\<close> calls and the reports are equal in number.
\<close>

theorem proxy_call_discipline:
  assumes "h_breaker h \<noteq> None"
  shows "disciplined (snd (snd (ServeHTTP h env r s)))
       \<and> dones u (snd (snd (ServeHTTP h env r s))) = picks u (snd (snd (ServeHTTP h env r s)))
       \<and> reports u (snd (snd (ServeHTTP h env r s))) = picks u (snd (snd (ServeHTTP h env r s)))"
proof -
  obtain w s' cs where run: "ServeHTTP h env r s = (w, s', cs)" by (metis prod_cases3)
  from ServeHTTP_spec [OF run] obtain res where "loop_spec h env r 0 res cs" by blast
  then have "disciplined cs" by (rule loop_disciplined [OF assms])
  then show ?thesis using disciplined_counts run by simp
qed

text \<open>A small handler over a list of picks, and an environment in which the first send fails.\<close>

definition demo_handler :: "nat Handler" where
  "demo_handler = New_Handler
     \<lparr>bi_Next = (\<lambda>t s. (Ok (if s = 0 then ''a'' else ''b''), s + 1)), bi_NextForIP = None, bi_Done = (\<lambda>u s. s)\<rparr>
     (Some \<lparr>br_RecordSuccess = (\<lambda>u s. s), br_RecordFailure = (\<lambda>t u s. s)\<rparr>) None
     \<lparr>HandlerTimeout = 0, MaxRetries = 2\<rparr> None None"

definition demo_env :: "int \<Rightarrow> nat env" where
  "demo_env code = \<lparr>env_start = 0, env_end = 0, env_clock = (\<lambda>n p. 0), env_newreq = (\<lambda>m u. True),
     env_do = (\<lambda>n req. if n = 0 then None
        else Some \<lparr>StatusCode = code, RespHeader = [''Te'' \<mapsto> [''x'']], RespBody = ''ok''\<rparr>),
     env_during = (\<lambda>n s. s), env_backoff = (\<lambda>n s. s)\<rparr>"

definition demo_request :: "string \<Rightarrow> request" where
  "demo_request m = \<lparr>rq_Method = m, rq_Path = ''/p'', rq_URI = ''/p'', rq_RemoteAddr = ''1.2.3.4:9'',
     rq_TLS = False, rq_Header = Map.empty, rq_Body = Some ''body''\<rparr>"

theorem proxy_call_discipline_witness:
  "dones ''a'' (snd (snd (ServeHTTP demo_handler (demo_env 200) (demo_request ''GET'') 0)))
   = picks ''a'' (snd (snd (ServeHTTP demo_handler (demo_env 200) (demo_request ''GET'') 0)))"
proof -
  have "h_breaker demo_handler \<noteq> None" by (simp add: demo_handler_def New_Handler_def Let_def)
  from proxy_call_discipline [OF this] show ?thesis by blast
qed





lemma one_attempt_calls:
  assumes "loop_spec h env r 0 res cs" and one: "max_attempts h r = 1"
    and ok: "\<forall>m t. env_newreq env m t"
    and up: "\<forall>req. \<exists>resp. env_do env 0 req = Some resp"
  shows "set cs \<subseteq> {NoBackend} \<or> (\<exists>u. set cs \<subseteq> {Picked u, Sent 0 u (request_for h r u), DoneCall u} \<union> set (success_report h u)
    \<and> set (success_report h u) \<subseteq> set cs)"
  using assms(1)
proof cases
  case (continue cs1 cs2)
  have "\<not> gives_up_on h r 0 (env_do env 0 (request_for h r u))" for u
    using up [rule_format, of "request_for h r u"] by (auto simp: gives_up_on_def one)
  with continue(3) ok show ?thesis by (auto elim!: attempt_continueE)
qed (auto elim!: attempt_breakE attempt_crashE attempt_returnE)

text \<open>
  A server that answers every request with 503 never fails as far as the breaker is told. When a
  request gets a single attempt (POST or PATCH, or \<open>max_retries\<close> 0), and every answer is a 503, no
  \<open>RecordFailure\<close> is called; the server is reported as a success, which resets its failure count.
\<close>

theorem proxy_503_reported_as_success:
  assumes "h_breaker h \<noteq> None" and "max_attempts h r = 1" and "\<forall>m t. env_newreq env m t"
    and "\<forall>req. \<exists>resp. env_do env 0 req = Some resp \<and> StatusCode resp = 503"
    and run: "ServeHTTP h env r s = (w, s', cs)"
  shows "FailureCall u \<notin> set cs \<and> (Picked u \<in> set cs \<longrightarrow> SuccessCall u \<in> set cs)"
proof -
  from ServeHTTP_spec [OF run] obtain res where "loop_spec h env r 0 res cs" by blast
  from one_attempt_calls [OF this assms(2,3)] assms(1,4) show ?thesis
    by (auto simp: success_report_def)
qed

theorem proxy_503_reported_as_success_witness:
  "case ServeHTTP demo_handler ((demo_env 503)\<lparr>env_do := (\<lambda>n req.
        Some \<lparr>StatusCode = 503, RespHeader = Map.empty, RespBody = ''''\<rparr>)\<rparr>) (demo_request ''POST'') 0 of (w, s', cs) \<Rightarrow>
     FailureCall ''a'' \<notin> set cs \<and> (Picked ''a'' \<in> set cs \<longrightarrow> SuccessCall ''a'' \<in> set cs)"
proof -
  let ?env = "(demo_env 503)\<lparr>env_do := (\<lambda>n req. Some \<lparr>StatusCode = 503, RespHeader = Map.empty, RespBody = ''''\<rparr>)\<rparr>"
  obtain w s' cs where run: "ServeHTTP demo_handler ?env (demo_request ''POST'') 0 = (w, s', cs)"
    by (metis prod_cases3)
  have "h_breaker demo_handler \<noteq> None" "max_attempts demo_handler (demo_request ''POST'') = 1"
    "\<forall>m t. env_newreq ?env m t" "\<forall>req. \<exists>resp. env_do ?env 0 req = Some resp \<and> StatusCode resp = 503"
    by (simp_all add: demo_handler_def New_Handler_def Let_def max_attempts_def demo_request_def idempotentMethod_def
        demo_env_def)
  from proxy_503_reported_as_success [OF this run] show ?thesis by (simp add: run)
qed

text \<open>A request whose first server answers with a status that is not retried ends there.\<close>

lemma serve_first_answer:
  assumes "pickBackend h (env_clock env 0 AtPick) (client_ip r) s = (Ok u, s1)" and "0 < max_attempts h r"
    and "env_newreq env (rq_Method r) (u @ rq_URI r)"
    and "env_do env 0 (request_for h r u) = Some resp" and "\<not> retryableStatus (StatusCode resp)"
  defines "d \<equiv> deliver h env r 0 0 u resp
      (bi_Done (h_bal h) u (env_during env 0 (incCounter h ''haribon_requests_total'' ''backend'' u s1)))"
  shows "fst (ServeHTTP h env r s) = (case fst d of Return w \<Rightarrow> Some w | _ \<Rightarrow> None)"
    and "fst (snd (ServeHTTP h env r s)) = fst (snd d)"
proof -
  define proto where "proto = (if rq_TLS r then ''https'' else ''http'')"
  define body where "body = (case rq_Body r of Some b \<Rightarrow> if idempotentMethod (rq_Method r) then b else '''' | None \<Rightarrow> '''')"
  have req: "\<lparr>or_Method = rq_Method r, or_URL = u @ rq_URI r, or_Header = forward_header r (client_ip r) proto,
      or_Body = if idempotentMethod (rq_Method r) then Some body else rq_Body r,
      or_Timeout = HandlerTimeout (h_cfg h)\<rparr> = request_for h r u"
    by (simp add: request_for_def body_def proto_def split: option.splits)
  obtain e s2 cs where d: "d = (e, s2, cs)" by (metis prod_cases3)
  have e: "e = Crash \<or> (\<exists>w. e = Return w)"
    using d by (auto simp: d_def deliver_def Let_def split: prod.splits if_splits)
  have "\<exists>cs'. do_attempt h env r (client_ip r) proto body (max_attempts h r) 0 0 s = (e, s2, cs')"
    using assms(1,3,4,5) d by (simp add: do_attempt_def Let_def req d_def)
  then have "\<exists>cs'. attempt_loop h env r (client_ip r) proto body (max_attempts h r) 0 0 s
      = (case e of Return w \<Rightarrow> Replied w | _ \<Rightarrow> Crashed, s2, cs')"
    using assms(2) e by (auto simp: attempt_loop.simps [of _ _ _ _ _ _ _ 0])
  with e show "fst (ServeHTTP h env r s) = (case fst d of Return w \<Rightarrow> Some w | _ \<Rightarrow> None)"
    "fst (snd (ServeHTTP h env r s)) = fst (snd d)"
    by (auto simp: ServeHTTP_def body_def proto_def d Let_def)
qed

text \<open>
  A server can make the handler panic. \<^verbatim>\<open>net/http\<close>'s client accepts a three-digit status below 100,
  but writing such a status panics: when the first server picked answers with one, no reply is written.
\<close>

theorem proxy_panics_on_low_status:
  assumes "pickBackend h (env_clock env 0 AtPick) (client_ip r) s = (Ok u, s1)" and "0 < max_attempts h r"
    and "env_newreq env (rq_Method r) (u @ rq_URI r)"
    and "env_do env 0 (request_for h r u) = Some resp" and "StatusCode resp < 100"
  shows "fst (ServeHTTP h env r s) = None"
proof -
  have "\<not> retryableStatus (StatusCode resp)" using assms(5) by (simp add: retryableStatus_def)
  from serve_first_answer [OF assms(1-4) this] show ?thesis
    using assms(5) by (simp add: deliver_def valid_code_def Let_def split: prod.splits)
qed

theorem proxy_panics_on_low_status_witness:
  "fst (ServeHTTP demo_handler ((demo_env 99)\<lparr>env_do := (\<lambda>n req.
        Some \<lparr>StatusCode = 99, RespHeader = Map.empty, RespBody = ''''\<rparr>)\<rparr>) (demo_request ''GET'') 0) = None"
proof -
  let ?env = "(demo_env 99)\<lparr>env_do := (\<lambda>n req. Some \<lparr>StatusCode = 99, RespHeader = Map.empty, RespBody = ''''\<rparr>)\<rparr>"
  have "pickBackend demo_handler (env_clock ?env 0 AtPick) (client_ip (demo_request ''GET'')) 0 = (Ok ''a'', 1)"
    "0 < max_attempts demo_handler (demo_request ''GET'')"
    "env_newreq ?env (rq_Method (demo_request ''GET'')) (''a'' @ rq_URI (demo_request ''GET''))"
    by (simp_all add: demo_handler_def New_Handler_def Let_def pickBackend_def max_attempts_def demo_request_def
        idempotentMethod_def demo_env_def go_int_small)
  from proxy_panics_on_low_status [OF this] show ?thesis by simp
qed

text \<open>
  With the largest setting of \<open>max_retries\<close> the sum \<open>1 + max_retries\<close> wraps to a negative number: requests with an
  idempotent method are answered 503 without any backend being asked.
\<close>

theorem retries_overflow:
  fixes bal :: "'s Balancer_iface" and breaker client cfg reg logger
  defines "h \<equiv> New_Handler bal breaker client cfg reg logger"
  assumes "idempotentMethod (rq_Method r)" and "MaxRetries cfg = 2 ^ 63 - 1"
  shows "snd (snd (ServeHTTP h env r s)) = []
     \<and> fst (ServeHTTP h env r s) = Some (http_Error Map.empty ''All backend servers failed'' 503)"
proof -
  have "max_attempts h r = - (2 ^ 63)"
    using assms(2,3)
    by (simp add: max_attempts_def h_def New_Handler_def Let_def go_int_def)
  then show ?thesis by (simp add: ServeHTTP_def attempt_loop.simps [of h] Let_def)
qed

section \<open>What the proxy needs of its host\<close>

text \<open>
  The state behind the handler's interfaces between requests satisfies \<open>idle\<close>; while server \<open>u\<close> is picked
  and not yet reported it satisfies \<open>busy u\<close>. The host promises that a pick leads from \<open>idle\<close> to \<open>busy\<close>,
  and that \<open>Done\<close> with a report leads back; metrics and log lines do not matter. Under these laws every
  request that starts idle ends idle, if the other goroutines respect the same states.
\<close>

definition peaceful :: "('s \<Rightarrow> bool) \<Rightarrow> (url \<Rightarrow> 's \<Rightarrow> bool) \<Rightarrow> 's env \<Rightarrow> bool" where
  "peaceful idle busy env =
     (\<forall>n s. (\<forall>u. busy u s \<longrightarrow> busy u (env_during env n s)) \<and> (idle s \<longrightarrow> idle (env_backoff env n s)))"

locale proxy_host =
  fixes h :: "'s Handler" and idle :: "'s \<Rightarrow> bool" and busy :: "url \<Rightarrow> 's \<Rightarrow> bool"
  assumes pick_ok: "idle s \<Longrightarrow> pickBackend h t ip s = (Ok u, s') \<Longrightarrow> busy u s'"
    and pick_none: "idle s \<Longrightarrow> pickBackend h t ip s = (Fail e, s') \<Longrightarrow> idle s'"
    and pick_panics: "idle s \<Longrightarrow> pickBackend h t ip s = (Panic, s') \<Longrightarrow> idle s'"
    and fail_back: "busy u s \<Longrightarrow> idle (fst (report_failure h t u (bi_Done (h_bal h) u s)))"
    and success_back: "busy u s \<Longrightarrow> idle (fst (report_success h u (bi_Done (h_bal h) u s)))"
    and quiet_busy: "busy u s \<Longrightarrow> busy u (incCounter h n l v s)"
    and quiet_idle: "idle s \<Longrightarrow> idle (incCounter h n l v s)"
    and quiet_gauge: "idle s \<Longrightarrow> idle (setDurationGauge h u ms s)"
    and quiet_log: "idle s \<Longrightarrow> idle (log_entry h le s)"
begin

lemma deliver_idle:
  assumes "idle (fst (report_success h u s))"
  shows "idle (fst (snd (deliver h env r n k u resp s)))"
  using assms quiet_idle quiet_gauge quiet_log
  by (cases "report_success h u s") (simp add: deliver_def Let_def)

lemma attempt_idle:
  assumes "idle s" and "peaceful idle busy env"
  shows "idle (fst (snd (do_attempt h env r ip proto body m n k s)))"
proof (cases "pickBackend h (env_clock env n AtPick) ip s")
  case (Pair p s1)
  show ?thesis
  proof (cases p)
    case (Ok u)
    have b: "busy u (incCounter h ''haribon_requests_total'' ''backend'' u s1)"
      using pick_ok [OF assms(1)] Pair Ok quiet_busy by blast
    then have d: "busy u (env_during env n (incCounter h ''haribon_requests_total'' ''backend'' u s1))"
      using assms(2) by (simp add: peaceful_def)
    show ?thesis
      using fail_back [OF b, of "env_clock env n AtReport"] fail_back [OF d, of "env_clock env n AtReport"]
        quiet_idle deliver_idle [OF success_back [OF d]]
      by (simp add: do_attempt_def Pair Ok Let_def case_prod_unfold split: option.splits)
  qed (use Pair pick_none [OF assms(1)] pick_panics [OF assms(1)] in \<open>simp_all add: do_attempt_def\<close>)
qed

lemma loop_idle:
  assumes "peaceful idle busy env"
  shows "idle s \<Longrightarrow> idle (fst (snd (attempt_loop h env r ip proto body m n k s)))"
proof (induction "nat (m - int n)" arbitrary: n k s rule: less_induct)
  case less
  define s1 where "s1 = (if n > 0 then env_backoff env n s else s)"
  define k1 where "k1 = (if n > 0 then k + 1 else k)"
  have i: "idle s1" using less.prems assms by (simp add: s1_def peaceful_def)
  obtain e s2 c where a: "do_attempt h env r ip proto body m n k1 s1 = (e, s2, c)" by (metis prod_cases3)
  with attempt_idle [OF i assms] have i2: "idle s2" by (metis fst_conv snd_conv)
  have "int n < m \<Longrightarrow> idle (fst (snd (attempt_loop h env r ip proto body m (n + 1) k1 s2)))"
    using less.hyps i2 by simp
  then show ?case
    using less.prems i2 a
    by (cases e) (simp_all add: attempt_loop.simps [of _ _ _ _ _ _ _ n] case_prod_unfold flip: s1_def k1_def)
qed

lemma serve_idle:
  assumes "idle s" and "peaceful idle busy env"
  shows "idle (fst (snd (ServeHTTP h env r s)))"
proof -
  define proto where "proto = (if rq_TLS r then ''https'' else ''http'')"
  define body where "body = (case rq_Body r of Some b \<Rightarrow> if idempotentMethod (rq_Method r) then b else '''' | None \<Rightarrow> '''')"
  obtain res s1 cs where l: "attempt_loop h env r (client_ip r) proto body (max_attempts h r) 0 0 s = (res, s1, cs)"
    by (metis prod_cases3)
  with loop_idle [OF assms(2,1)] have i: "idle s1" by (metis fst_conv snd_conv)
  then show ?thesis
    using l quiet_log quiet_idle
    by (cases res) (simp_all add: ServeHTTP_def Let_def flip: proto_def body_def)
qed

end

end
