(* ===== verification/Config.thy ===== *)
theory Config
  imports Balancer NetHttp
begin

text \<open>
  Configuration loading, validation and defaulting (\<^verbatim>\<open>internal/config/config.go\<close>) and the reloadable
  snapshot (\<^verbatim>\<open>internal/config/snapshot.go\<close>). The environment is a map from variable names to values; the
  file system, the YAML decoder, the host name and SHA-256 are arguments of the operations that use them.
\<close>

section \<open>The configuration\<close>

datatype cfg_error =
    CErrNoBackends
  | CErrEmptyBackendURL nat
  | CErrURLParse nat
  | CErrBadScheme nat string
  | CErrInvalidWeight nat string int
  | CErrUnknownProvider string
  | CErrDNSName
  | CErrDNSPort int
  | CErrFilePath
  | CErrRefreshSec
  | CErrInvalidPort int
  | CErrUnknownStrategy string
  | CErrInvalidLogFormat string
  | CErrInvalidLogExporter string
  | CErrNodeID string
  | CErrGossipSec

record BalancerConfig =
  Strategy :: string

record HealthConfig =
  hc_Enabled :: bool
  hc_IntervalSec :: int
  hc_TimeoutSec :: int
  hc_Path :: string
  hc_HealthyThreshold :: int
  hc_UnhealthyThreshold :: int

record RetryConfig =
  rt_MaxRetries :: int

record BreakerConfig =
  bc_FailureThreshold :: int
  bc_CooldownSec :: int

record AdminConfig =
  ad_Enabled :: bool
  ad_Addr :: string
  ad_Token :: string

record Backend =
  Host :: string
  bk_Weight :: int

record DiscoveryConfig =
  dc_Provider :: string
  dc_DNSName :: string
  dc_DNSPort :: int
  dc_FilePath :: string
  dc_RefreshSec :: int

record ClusterConfig =
  cl_Enabled :: bool
  cl_NodeID :: string
  cl_Peers :: "string list"
  cl_GossipSec :: int
  cl_GossipAddr :: string

record LokiConfig =
  lk_URL :: string
  lk_Labels :: "(string \<rightharpoonup> string) option"

record ElasticsearchConfig =
  es_URL :: string
  es_Index :: string

record FluentbitConfig =
  fb_Addr :: string

record Config =
  MainHost :: string
  MainPort :: int
  Logging :: bool
  LogPath :: string
  LogFormat :: string
  Exporters :: "string list"
  cLoki :: LokiConfig
  cElasticsearch :: ElasticsearchConfig
  cFluentbit :: FluentbitConfig
  cAdmin :: AdminConfig
  ShutdownTimeoutSec :: int
  cBackends :: "Backend list"
  cBalancer :: BalancerConfig
  cHealth :: HealthConfig
  cRetry :: RetryConfig
  cBreaker :: BreakerConfig
  cDiscovery :: DiscoveryConfig
  cCluster :: ClusterConfig

text \<open>The zero value, which \<^verbatim>\<open>yaml.Unmarshal\<close> starts from.\<close>

definition zero_Config :: Config where
  "zero_Config =
     \<lparr>MainHost = '''', MainPort = 0, Logging = False, LogPath = '''', LogFormat = '''', Exporters = [],
      cLoki = \<lparr>lk_URL = '''', lk_Labels = None\<rparr>, cElasticsearch = \<lparr>es_URL = '''', es_Index = ''''\<rparr>,
      cFluentbit = \<lparr>fb_Addr = ''''\<rparr>, cAdmin = \<lparr>ad_Enabled = False, ad_Addr = '''', ad_Token = ''''\<rparr>,
      ShutdownTimeoutSec = 0, cBackends = [], cBalancer = \<lparr>Strategy = ''''\<rparr>,
      cHealth = \<lparr>hc_Enabled = False, hc_IntervalSec = 0, hc_TimeoutSec = 0, hc_Path = '''',
                 hc_HealthyThreshold = 0, hc_UnhealthyThreshold = 0\<rparr>,
      cRetry = \<lparr>rt_MaxRetries = 0\<rparr>, cBreaker = \<lparr>bc_FailureThreshold = 0, bc_CooldownSec = 0\<rparr>,
      cDiscovery = \<lparr>dc_Provider = '''', dc_DNSName = '''', dc_DNSPort = 0, dc_FilePath = '''', dc_RefreshSec = 0\<rparr>,
      cCluster = \<lparr>cl_Enabled = False, cl_NodeID = '''', cl_Peers = [], cl_GossipSec = 0, cl_GossipAddr = ''''\<rparr>\<rparr>"

section \<open>Environment references\<close>

type_synonym environ = "string \<rightharpoonup> string"

definition name_start :: "char \<Rightarrow> bool" where
  "name_start c = (is_letter c \<or> c = CHR ''_'')"

definition name_char :: "char \<Rightarrow> bool" where
  "name_char c = (is_letter c \<or> is_digit c \<or> c = CHR ''_'')"

text \<open>A match of \<^verbatim>\<open>\$\{([A-Za-z_][A-Za-z0-9_]*)\}\<close> at the head of the text: the name and the text after it.\<close>

definition env_ref :: "string \<Rightarrow> (string \<times> string) option" where
  "env_ref s =
     (case s of
        d # b # rest \<Rightarrow>
          if d = CHR ''$'' \<and> b = CHR ''{'' then
            (let name = takeWhile name_char rest; after = dropWhile name_char rest in
             if name \<noteq> [] \<and> name_start (hd name) \<and> after \<noteq> [] \<and> hd after = CHR ''}''
             then Some (name, tl after) else None)
          else None
      | _ \<Rightarrow> None)"

lemma env_ref_shorter: "env_ref s = Some (name, rest) \<Longrightarrow> length rest < length s"
proof -
  assume "env_ref s = Some (name, rest)"
  then obtain d b t where s: "s = d # b # t" and r: "rest = tl (dropWhile name_char t)"
    by (auto simp: env_ref_def Let_def split: list.splits if_splits)
  have "length (dropWhile name_char t) \<le> length t" by (simp add: length_dropWhile_le)
  then show ?thesis by (simp add: s r)
qed

function expandEnv :: "environ \<Rightarrow> string \<Rightarrow> string" where
  "expandEnv env [] = []"
| "expandEnv env (c # cs) =
     (case env_ref (c # cs) of
        Some (name, rest) \<Rightarrow>
          (case env name of Some v \<Rightarrow> v | None \<Rightarrow> ''${'' @ name @ ''}'') @ expandEnv env rest
      | None \<Rightarrow> c # expandEnv env cs)"
  by pat_completeness auto
termination
  by (relation "measure (\<lambda>(env, s). length s)") (auto dest: env_ref_shorter)

section \<open>Loading, overrides, paths\<close>

datatype load_error = ReadError string | ParseError string

text \<open>\<open>read_file\<close> is \<^verbatim>\<open>os.ReadFile\<close>, \<open>unmarshal\<close> is \<^verbatim>\<open>yaml.Unmarshal\<close> into a zero \<open>Config\<close>.\<close>

definition Load :: "(string \<Rightarrow> string option) \<Rightarrow> (string \<Rightarrow> Config option) \<Rightarrow> environ \<Rightarrow> string
    \<Rightarrow> (load_error, Config) go" where
  "Load read_file unmarshal env path =
     (case read_file path of
        None \<Rightarrow> Fail (ReadError path)
      | Some data \<Rightarrow>
          (case unmarshal (expandEnv env data) of
             None \<Rightarrow> Fail (ParseError path)
           | Some cfg \<Rightarrow> Ok cfg))"

text \<open>\<^verbatim>\<open>os.Getenv\<close>.\<close>

definition getenv :: "environ \<Rightarrow> string \<Rightarrow> string" where
  "getenv env name = (case env name of None \<Rightarrow> '''' | Some v \<Rightarrow> v)"

definition ApplyEnvOverrides :: "environ \<Rightarrow> Config \<Rightarrow> Config" where
  "ApplyEnvOverrides env cfg =
     (let cfg1 = (let host = getenv env ''HARIBON_HOST'' in
                  if host \<noteq> '''' then cfg\<lparr>MainHost := host\<rparr> else cfg);
          port = getenv env ''HARIBON_PORT''
      in if port \<noteq> '''' then (case atoi port of Some p \<Rightarrow> cfg1\<lparr>MainPort := p\<rparr> | None \<Rightarrow> cfg1) else cfg1)"

definition ResolveConfigPath :: "environ \<Rightarrow> string \<Rightarrow> string" where
  "ResolveConfigPath env cli =
     (if cli \<noteq> '''' then cli
      else let e = getenv env ''HARIBON_CONFIG'' in if e \<noteq> '''' then e else ''./haribon-config.yml'')"

definition EnabledExporter :: "Config \<Rightarrow> string \<Rightarrow> bool" where
  "EnabledExporter c name = list_ex (\<lambda>e. e = name) (Exporters c)"

section \<open>Validation\<close>

fun validate_backends :: "nat \<Rightarrow> Backend list \<Rightarrow> cfg_error option" where
  "validate_backends i [] = None"
| "validate_backends i (b # bs) =
     (if Host b = '''' then Some (CErrEmptyBackendURL i)
      else case url_Parse (Host b) of
        None \<Rightarrow> Some (CErrURLParse i)
      | Some sch \<Rightarrow>
          if sch \<noteq> ''http'' \<and> sch \<noteq> ''https'' then Some (CErrBadScheme i (Host b))
          else if bk_Weight b < 0 then Some (CErrInvalidWeight i (Host b) (bk_Weight b))
          else validate_backends (i + 1) bs)"

definition validate_discovery :: "DiscoveryConfig \<Rightarrow> cfg_error option" where
  "validate_discovery d =
     (if dc_Provider d \<noteq> '''' \<and> dc_Provider d \<notin> {''static'', ''dns'', ''file''}
        then Some (CErrUnknownProvider (dc_Provider d))
      else if dc_Provider d = ''dns'' \<and> dc_DNSName d = '''' then Some CErrDNSName
      else if dc_Provider d = ''dns'' \<and> dc_DNSPort d \<noteq> 0 \<and> (dc_DNSPort d < 1 \<or> dc_DNSPort d > 65535)
        then Some (CErrDNSPort (dc_DNSPort d))
      else if dc_Provider d = ''file'' \<and> dc_FilePath d = '''' then Some CErrFilePath
      else if dc_Provider d \<noteq> '''' \<and> dc_Provider d \<noteq> ''static'' \<and> dc_RefreshSec d < 0 then Some CErrRefreshSec
      else None)"

definition valid_strategies :: "string list" where
  "valid_strategies = [''round_robin'', ''weighted_round_robin'', ''least_connections'', ''random'', ''ip_hash'']"

definition validExporters :: "string list" where
  "validExporters = [''stdout'', ''file'', ''loki'', ''fluentbit'', ''elasticsearch'']"

definition Validate :: "Config \<Rightarrow> cfg_error option" where
  "Validate cfg =
     (if cBackends cfg = [] \<and> dc_Provider (cDiscovery cfg) = '''' then Some CErrNoBackends
      else case validate_backends 0 (cBackends cfg) of
        Some e \<Rightarrow> Some e
      | None \<Rightarrow>
      (case validate_discovery (cDiscovery cfg) of
        Some e \<Rightarrow> Some e
      | None \<Rightarrow>
      if MainPort cfg \<noteq> 0 \<and> (MainPort cfg < 1 \<or> MainPort cfg > 65535) then Some (CErrInvalidPort (MainPort cfg))
      else if Strategy (cBalancer cfg) \<noteq> '''' \<and> Strategy (cBalancer cfg) \<notin> set valid_strategies
        then Some (CErrUnknownStrategy (Strategy (cBalancer cfg)))
      else if LogFormat cfg \<noteq> '''' \<and> LogFormat cfg \<noteq> ''json'' \<and> LogFormat cfg \<noteq> ''text''
        then Some (CErrInvalidLogFormat (LogFormat cfg))
      else (case find (\<lambda>ex. ex \<notin> set validExporters) (Exporters cfg) of
        Some ex \<Rightarrow> Some (CErrInvalidLogExporter ex)
      | None \<Rightarrow>
      if cl_Enabled (cCluster cfg) \<and> contains ''${'' (cl_NodeID (cCluster cfg))
        then Some (CErrNodeID (cl_NodeID (cCluster cfg)))
      else if cl_Enabled (cCluster cfg) \<and> cl_GossipSec (cCluster cfg) < 0 then Some CErrGossipSec
      else None)))"

section \<open>Defaults\<close>

text \<open>The statements of \<open>Defaults\<close>, grouped by the sub-record each of them reads and writes.\<close>

definition default_health :: "HealthConfig \<Rightarrow> HealthConfig" where
  "default_health c =
     (let c1 = (if hc_IntervalSec c \<le> 0 then c\<lparr>hc_IntervalSec := 10\<rparr> else c);
          c2 = (if hc_TimeoutSec c1 \<le> 0 then c1\<lparr>hc_TimeoutSec := 2\<rparr> else c1);
          c3 = (if hc_Path c2 = '''' then c2\<lparr>hc_Path := ''/''\<rparr> else c2);
          c4 = (if hc_HealthyThreshold c3 \<le> 0 then c3\<lparr>hc_HealthyThreshold := 1\<rparr> else c3)
      in if hc_UnhealthyThreshold c4 \<le> 0 then c4\<lparr>hc_UnhealthyThreshold := 2\<rparr> else c4)"

definition default_retry :: "RetryConfig \<Rightarrow> RetryConfig" where
  "default_retry c = (if rt_MaxRetries c \<le> 0 then c\<lparr>rt_MaxRetries := 1\<rparr> else c)"

definition default_breaker :: "BreakerConfig \<Rightarrow> BreakerConfig" where
  "default_breaker c =
     (let c1 = (if bc_FailureThreshold c \<le> 0 then c\<lparr>bc_FailureThreshold := 5\<rparr> else c)
      in if bc_CooldownSec c1 \<le> 0 then c1\<lparr>bc_CooldownSec := 30\<rparr> else c1)"

definition default_discovery :: "DiscoveryConfig \<Rightarrow> DiscoveryConfig" where
  "default_discovery c =
     (let c1 = (if dc_RefreshSec c \<le> 0 then c\<lparr>dc_RefreshSec := 30\<rparr> else c)
      in if dc_Provider c1 = ''dns'' \<and> dc_DNSPort c1 \<le> 0 then c1\<lparr>dc_DNSPort := 80\<rparr> else c1)"

definition default_cluster :: "string option \<Rightarrow> ClusterConfig \<Rightarrow> ClusterConfig" where
  "default_cluster hostname c =
     (let c1 = (if cl_GossipSec c \<le> 0 \<and> cl_Enabled c then c\<lparr>cl_GossipSec := 5\<rparr> else c);
          c2 = (if cl_GossipAddr c1 = '''' \<and> cl_Enabled c1 then c1\<lparr>cl_GossipAddr := ''0.0.0.0:7946''\<rparr> else c1)
      in if cl_Enabled c2 \<and> cl_NodeID c2 = ''''
         then (case hostname of Some h \<Rightarrow> c2\<lparr>cl_NodeID := h\<rparr> | None \<Rightarrow> c2) else c2)"

definition default_loki :: "LokiConfig \<Rightarrow> LokiConfig" where
  "default_loki c =
     (let c1 = (if lk_URL c = '''' then c\<lparr>lk_URL := ''http://localhost:3100''\<rparr> else c);
          labels = (case lk_Labels c1 of None \<Rightarrow> Map.empty | Some m \<Rightarrow> m)
      in c1\<lparr>lk_Labels := Some (if labels ''job'' = None then labels(''job'' \<mapsto> ''haribon'') else labels)\<rparr>)"

definition default_elasticsearch :: "ElasticsearchConfig \<Rightarrow> ElasticsearchConfig" where
  "default_elasticsearch c =
     (let c1 = (if es_URL c = '''' then c\<lparr>es_URL := ''http://localhost:9200''\<rparr> else c)
      in if es_Index c1 = '''' then c1\<lparr>es_Index := ''haribon''\<rparr> else c1)"

definition Defaults :: "string option \<Rightarrow> Config \<Rightarrow> Config" where
  "Defaults hostname cfg =
     cfg\<lparr>cBalancer := (if Strategy (cBalancer cfg) = '''' then (cBalancer cfg)\<lparr>Strategy := ''round_robin''\<rparr> else cBalancer cfg),
         cHealth := default_health (cHealth cfg),
         cRetry := default_retry (cRetry cfg),
         cBreaker := default_breaker (cBreaker cfg),
         LogFormat := (if LogFormat cfg = '''' then ''json''
                       else if LogFormat cfg \<noteq> ''json'' \<and> LogFormat cfg \<noteq> ''text'' then ''json'' else LogFormat cfg),
         cDiscovery := default_discovery (cDiscovery cfg),
         cCluster := default_cluster hostname (cCluster cfg),
         LogPath := (if LogPath cfg = '''' \<and> Logging cfg then ''./haribon.log'' else LogPath cfg),
         cAdmin := (if ad_Addr (cAdmin cfg) = '''' then (cAdmin cfg)\<lparr>ad_Addr := ''127.0.0.1:4445''\<rparr> else cAdmin cfg),
         ShutdownTimeoutSec := (if ShutdownTimeoutSec cfg \<le> 0 then 15 else ShutdownTimeoutSec cfg),
         cLoki := default_loki (cLoki cfg),
         cElasticsearch := default_elasticsearch (cElasticsearch cfg),
         cFluentbit := (if fb_Addr (cFluentbit cfg) = '''' then (cFluentbit cfg)\<lparr>fb_Addr := ''localhost:24224''\<rparr> else cFluentbit cfg),
         Exporters := (if Exporters cfg = [] then [''stdout''] else Exporters cfg)\<rparr>"

section \<open>Snapshots and reload\<close>

record Snapshot =
  snap_cfg :: Config

definition NewSnapshot :: "Config \<Rightarrow> Snapshot" where
  "NewSnapshot cfg = \<lparr>snap_cfg = cfg\<rparr>"

definition Snapshot_Load :: "Snapshot \<Rightarrow> Config" where
  "Snapshot_Load s = snap_cfg s"

datatype reload_error = ReloadLoad load_error | ReloadValidate cfg_error

text \<open>What \<open>Reload\<close> meets outside: the files, the YAML decoder, the environment and the host name.\<close>

record machine =
  read_file :: "string \<Rightarrow> string option"
  yaml_Unmarshal :: "string \<Rightarrow> Config option"
  environment :: environ
  hostname :: "string option"

definition Snapshot_Reload :: "machine \<Rightarrow> string \<Rightarrow> Snapshot \<Rightarrow> reload_error option \<times> Snapshot" where
  "Snapshot_Reload m path s =
     (case Load (read_file m) (yaml_Unmarshal m) (environment m) path of
        Ok newCfg0 \<Rightarrow>
          let newCfg = ApplyEnvOverrides (environment m) newCfg0 in
          (case Validate newCfg of
             Some e \<Rightarrow> (Some (ReloadValidate e), s)
           | None \<Rightarrow> (None, s\<lparr>snap_cfg := Defaults (hostname m) newCfg\<rparr>))
      | Fail e \<Rightarrow> (Some (ReloadLoad e), s)
      | Panic \<Rightarrow> (None, s))"

text \<open>The loop of \<open>Watch\<close>: every signal and every poll reloads until the context ends.\<close>

datatype watch_event = WatchStop | Sighup machine | Poll machine

fun Snapshot_Watch :: "string \<Rightarrow> int \<Rightarrow> watch_event list \<Rightarrow> Snapshot \<Rightarrow> Snapshot" where
  "Snapshot_Watch path watchSecs [] s = s"
| "Snapshot_Watch path watchSecs (WatchStop # es) s = s"
| "Snapshot_Watch path watchSecs (Sighup m # es) s = Snapshot_Watch path watchSecs es (snd (Snapshot_Reload m path s))"
| "Snapshot_Watch path watchSecs (Poll m # es) s =
     Snapshot_Watch path watchSecs es (if watchSecs > 0 then snd (Snapshot_Reload m path s) else s)"

text \<open>
  \<open>StartWatcherHook\<close>: the body of \<open>reload\<close>, and its loop. The callback acts on the rest of the program's
  state. The poll channel is \<^verbatim>\<open>nil\<close> unless \<open>watchSecs > 0\<close>, so it never fires then.
\<close>

definition watcher_reload :: "(Config \<Rightarrow> 's \<Rightarrow> 's) option \<Rightarrow> machine \<Rightarrow> string \<Rightarrow> Snapshot \<times> 's \<Rightarrow> Snapshot \<times> 's" where
  "watcher_reload onReload m path st =
     (case st of (snap, s) \<Rightarrow>
        (case Snapshot_Reload m path snap of
           (Some e, snap') \<Rightarrow> (snap', s)
         | (None, snap') \<Rightarrow>
             (snap', case onReload of None \<Rightarrow> s | Some f \<Rightarrow> f (Snapshot_Load snap') s)))"

fun StartWatcherHook :: "(Config \<Rightarrow> 's \<Rightarrow> 's) option \<Rightarrow> string \<Rightarrow> int \<Rightarrow> watch_event list \<Rightarrow> Snapshot \<times> 's \<Rightarrow> Snapshot \<times> 's" where
  "StartWatcherHook onReload path watchSecs [] st = st"
| "StartWatcherHook onReload path watchSecs (WatchStop # es) st = st"
| "StartWatcherHook onReload path watchSecs (Sighup m # es) st =
     StartWatcherHook onReload path watchSecs es (watcher_reload onReload m path st)"
| "StartWatcherHook onReload path watchSecs (Poll m # es) st =
     StartWatcherHook onReload path watchSecs es
       (if watchSecs > 0 then watcher_reload onReload m path st else st)"

definition StartWatcher :: "string \<Rightarrow> int \<Rightarrow> watch_event list \<Rightarrow> Snapshot \<times> 's \<Rightarrow> Snapshot \<times> 's" where
  "StartWatcher path watchSecs es st = StartWatcherHook None path watchSecs es st"

text \<open>\<open>sha256\<close> and \<open>hex\<close> are the library functions.\<close>

definition FileHash :: "(string \<Rightarrow> string option) \<Rightarrow> (string \<Rightarrow> string) \<Rightarrow> string \<Rightarrow> string" where
  "FileHash read sha256_hex path = (case read path of None \<Rightarrow> '''' | Some data \<Rightarrow> sha256_hex data)"

definition BackendsFromConfig :: "Config \<Rightarrow> string list" where
  "BackendsFromConfig cfg = map Host (cBackends cfg)"

record BackendWeight =
  bw_URL :: string
  bw_Weight :: int

definition BackendEntriesFromConfig :: "Config \<Rightarrow> BackendWeight list" where
  "BackendEntriesFromConfig cfg = map (\<lambda>b. \<lparr>bw_URL = Host b, bw_Weight = bk_Weight b\<rparr>) (cBackends cfg)"

section \<open>Specification vocabulary\<close>

text \<open>What \<open>Validate\<close> promises about a configuration it accepts.\<close>

definition valid_backend :: "Backend \<Rightarrow> bool" where
  "valid_backend b = (Host b \<noteq> '''' \<and> url_Parse (Host b) \<in> {Some ''http'', Some ''https''} \<and> 0 \<le> bk_Weight b)"

definition valid_config :: "Config \<Rightarrow> bool" where
  "valid_config cfg =
     (let d = cDiscovery cfg; c = cCluster cfg in
      (cBackends cfg \<noteq> [] \<or> dc_Provider d \<noteq> '''')
      \<and> list_all valid_backend (cBackends cfg)
      \<and> dc_Provider d \<in> {'''', ''static'', ''dns'', ''file''}
      \<and> (dc_Provider d = ''dns'' \<longrightarrow> dc_DNSName d \<noteq> '''' \<and> dc_DNSPort d \<in> {0..65535})
      \<and> (dc_Provider d = ''file'' \<longrightarrow> dc_FilePath d \<noteq> '''')
      \<and> (dc_Provider d \<in> {''dns'', ''file''} \<longrightarrow> 0 \<le> dc_RefreshSec d)
      \<and> MainPort cfg \<in> {0..65535}
      \<and> Strategy (cBalancer cfg) \<in> {''''} \<union> set valid_strategies
      \<and> LogFormat cfg \<in> {'''', ''json'', ''text''}
      \<and> set (Exporters cfg) \<subseteq> set validExporters
      \<and> (cl_Enabled c \<longrightarrow> \<not> contains ''${'' (cl_NodeID c) \<and> 0 \<le> cl_GossipSec c))"

text \<open>No field the runtime divides time by, counts up to or dials is left unset.\<close>

definition defaulted :: "Config \<Rightarrow> bool" where
  "defaulted cfg =
     (Strategy (cBalancer cfg) \<noteq> ''''
      \<and> 0 < hc_IntervalSec (cHealth cfg) \<and> 0 < hc_TimeoutSec (cHealth cfg) \<and> hc_Path (cHealth cfg) \<noteq> ''''
      \<and> 0 < hc_HealthyThreshold (cHealth cfg) \<and> 0 < hc_UnhealthyThreshold (cHealth cfg)
      \<and> 0 < rt_MaxRetries (cRetry cfg)
      \<and> 0 < bc_FailureThreshold (cBreaker cfg) \<and> 0 < bc_CooldownSec (cBreaker cfg)
      \<and> LogFormat cfg \<in> {''json'', ''text''}
      \<and> 0 < dc_RefreshSec (cDiscovery cfg) \<and> (dc_Provider (cDiscovery cfg) = ''dns'' \<longrightarrow> 0 < dc_DNSPort (cDiscovery cfg))
      \<and> (cl_Enabled (cCluster cfg) \<longrightarrow> 0 < cl_GossipSec (cCluster cfg) \<and> cl_GossipAddr (cCluster cfg) \<noteq> '''')
      \<and> (Logging cfg \<longrightarrow> LogPath cfg \<noteq> '''') \<and> ad_Addr (cAdmin cfg) \<noteq> '''' \<and> 0 < ShutdownTimeoutSec cfg
      \<and> lk_URL (cLoki cfg) \<noteq> '''' \<and> (\<exists>m. lk_Labels (cLoki cfg) = Some m \<and> m ''job'' \<noteq> None)
      \<and> es_URL (cElasticsearch cfg) \<noteq> '''' \<and> es_Index (cElasticsearch cfg) \<noteq> ''''
      \<and> fb_Addr (cFluentbit cfg) \<noteq> '''' \<and> Exporters cfg \<noteq> [])"

definition plain_hostname :: "machine \<Rightarrow> bool" where
  "plain_hostname m = (\<forall>hn. hostname m = Some hn \<longrightarrow> \<not> contains ''${'' hn)"

fun event_machine :: "watch_event \<Rightarrow> machine option" where
  "event_machine WatchStop = None"
| "event_machine (Sighup m) = Some m"
| "event_machine (Poll m) = Some m"

text \<open>A configuration text as literal pieces and references.\<close>

datatype piece = Lit string | Ref string

fun piece_text :: "piece \<Rightarrow> string" where
  "piece_text (Lit s) = s"
| "piece_text (Ref n) = ''${'' @ n @ ''}''"

fun piece_value :: "environ \<Rightarrow> piece \<Rightarrow> string" where
  "piece_value env (Lit s) = s"
| "piece_value env (Ref n) = (case env n of Some v \<Rightarrow> v | None \<Rightarrow> ''${'' @ n @ ''}'')"

fun piece_ok :: "piece \<Rightarrow> bool" where
  "piece_ok (Lit s) = (CHR ''$'' \<notin> set s)"
| "piece_ok (Ref n) = (n \<noteq> [] \<and> name_start (hd n) \<and> list_all name_char n)"

section \<open>Lemmas\<close>

lemma validate_backends_None: "validate_backends i bs = None \<longleftrightarrow> list_all valid_backend bs"
  by (induction i bs rule: validate_backends.induct)
    (auto simp: valid_backend_def split: option.splits)

lemma validate_discovery_None:
  "validate_discovery d = None \<longleftrightarrow>
     dc_Provider d \<in> {'''', ''static'', ''dns'', ''file''}
      \<and> (dc_Provider d = ''dns'' \<longrightarrow> dc_DNSName d \<noteq> '''' \<and> dc_DNSPort d \<in> {0..65535})
      \<and> (dc_Provider d = ''file'' \<longrightarrow> dc_FilePath d \<noteq> '''')
      \<and> (dc_Provider d \<in> {''dns'', ''file''} \<longrightarrow> 0 \<le> dc_RefreshSec d)"
  by (auto simp: validate_discovery_def)

lemma check_chain:
  "(if P then Some e else x) = None \<longleftrightarrow> \<not> P \<and> x = None"
  "(case opt of Some e \<Rightarrow> Some (f e) | None \<Rightarrow> x) = None \<longleftrightarrow> opt = None \<and> x = None"
  by (auto split: option.splits)

lemma Validate_steps:
  "Validate cfg = None \<longleftrightarrow>
     \<not> (cBackends cfg = [] \<and> dc_Provider (cDiscovery cfg) = '''')
     \<and> validate_backends 0 (cBackends cfg) = None \<and> validate_discovery (cDiscovery cfg) = None
     \<and> \<not> (MainPort cfg \<noteq> 0 \<and> (MainPort cfg < 1 \<or> MainPort cfg > 65535))
     \<and> \<not> (Strategy (cBalancer cfg) \<noteq> '''' \<and> Strategy (cBalancer cfg) \<notin> set valid_strategies)
     \<and> \<not> (LogFormat cfg \<noteq> '''' \<and> LogFormat cfg \<noteq> ''json'' \<and> LogFormat cfg \<noteq> ''text'')
     \<and> find (\<lambda>ex. ex \<notin> set validExporters) (Exporters cfg) = None
     \<and> \<not> (cl_Enabled (cCluster cfg) \<and> contains ''${'' (cl_NodeID (cCluster cfg)))
     \<and> \<not> (cl_Enabled (cCluster cfg) \<and> cl_GossipSec (cCluster cfg) < 0)"
  by (simp only: Validate_def check_chain simp_thms)

lemma Validate_iff: "Validate cfg = None \<longleftrightarrow> valid_config cfg"
proof -
  have p: "\<not> (MainPort cfg \<noteq> 0 \<and> (MainPort cfg < 1 \<or> MainPort cfg > 65535)) \<longleftrightarrow> MainPort cfg \<in> {0..65535}"
    by auto
  have e: "find (\<lambda>ex. ex \<notin> set validExporters) (Exporters cfg) = None \<longleftrightarrow> set (Exporters cfg) \<subseteq> set validExporters"
    by (auto simp: find_None_iff_all)
  show ?thesis
    unfolding Validate_steps p e validate_backends_None validate_discovery_None valid_config_def Let_def
    by (simp add: not_less) blast
qed

lemma default_health_sel [simp]:
  "hc_IntervalSec (default_health c) = (if hc_IntervalSec c \<le> 0 then 10 else hc_IntervalSec c)"
  "hc_TimeoutSec (default_health c) = (if hc_TimeoutSec c \<le> 0 then 2 else hc_TimeoutSec c)"
  "hc_Path (default_health c) = (if hc_Path c = '''' then ''/'' else hc_Path c)"
  "hc_HealthyThreshold (default_health c) = (if hc_HealthyThreshold c \<le> 0 then 1 else hc_HealthyThreshold c)"
  "hc_UnhealthyThreshold (default_health c) = (if hc_UnhealthyThreshold c \<le> 0 then 2 else hc_UnhealthyThreshold c)"
  "hc_Enabled (default_health c) = hc_Enabled c"
  by (simp_all add: default_health_def Let_def)

lemma default_small_sel [simp]:
  "rt_MaxRetries (default_retry r) = (if rt_MaxRetries r \<le> 0 then 1 else rt_MaxRetries r)"
  "bc_FailureThreshold (default_breaker b) = (if bc_FailureThreshold b \<le> 0 then 5 else bc_FailureThreshold b)"
  "bc_CooldownSec (default_breaker b) = (if bc_CooldownSec b \<le> 0 then 30 else bc_CooldownSec b)"
  "es_URL (default_elasticsearch e) = (if es_URL e = '''' then ''http://localhost:9200'' else es_URL e)"
  "es_Index (default_elasticsearch e) = (if es_Index e = '''' then ''haribon'' else es_Index e)"
  by (simp_all add: default_retry_def default_breaker_def default_elasticsearch_def Let_def)

lemma default_discovery_sel [simp]:
  "dc_Provider (default_discovery d) = dc_Provider d"
  "dc_DNSName (default_discovery d) = dc_DNSName d"
  "dc_FilePath (default_discovery d) = dc_FilePath d"
  "dc_RefreshSec (default_discovery d) = (if dc_RefreshSec d \<le> 0 then 30 else dc_RefreshSec d)"
  "dc_DNSPort (default_discovery d) = (if dc_Provider d = ''dns'' \<and> dc_DNSPort d \<le> 0 then 80 else dc_DNSPort d)"
  by (simp_all add: default_discovery_def Let_def)

lemma default_cluster_sel [simp]:
  "cl_Enabled (default_cluster hn c) = cl_Enabled c"
  "cl_Peers (default_cluster hn c) = cl_Peers c"
  "cl_GossipSec (default_cluster hn c) = (if cl_GossipSec c \<le> 0 \<and> cl_Enabled c then 5 else cl_GossipSec c)"
  "cl_GossipAddr (default_cluster hn c) = (if cl_GossipAddr c = '''' \<and> cl_Enabled c then ''0.0.0.0:7946'' else cl_GossipAddr c)"
  "cl_NodeID (default_cluster hn c) = (if cl_Enabled c \<and> cl_NodeID c = '''' then case hn of Some n \<Rightarrow> n | None \<Rightarrow> '''' else cl_NodeID c)"
  by (auto simp: default_cluster_def Let_def split: option.split)

lemma default_loki_URL [simp]:
  "lk_URL (default_loki l) = (if lk_URL l = '''' then ''http://localhost:3100'' else lk_URL l)"
  by (simp add: default_loki_def Let_def)

lemma default_loki_Labels [simp]:
  "lk_Labels (default_loki l) = Some (let m = (case lk_Labels l of None \<Rightarrow> Map.empty | Some m \<Rightarrow> m)
     in if m ''job'' = None then m(''job'' \<mapsto> ''haribon'') else m)"
  by (auto simp: default_loki_def Let_def)

lemma default_idem:
  "default_health (default_health c) = default_health c"
  "default_retry (default_retry r) = default_retry r"
  "default_breaker (default_breaker b) = default_breaker b"
  "default_discovery (default_discovery d) = default_discovery d"
  "default_elasticsearch (default_elasticsearch e) = default_elasticsearch e"
  by (rule HealthConfig.equality RetryConfig.equality BreakerConfig.equality DiscoveryConfig.equality
      ElasticsearchConfig.equality; simp)+

lemma default_idem_cluster: "default_cluster hn (default_cluster hn cl) = default_cluster hn cl"
  by (rule ClusterConfig.equality) (simp_all split: option.split)

lemma default_idem_loki: "default_loki (default_loki l) = default_loki l"
  by (rule LokiConfig.equality) (auto simp: Let_def)

lemma Defaults_defaulted: "defaulted (Defaults hn cfg)"
  unfolding defaulted_def
  by (intro conjI; simp add: Defaults_def Let_def; fail)

lemma Defaults_idem: "Defaults hn (Defaults hn cfg) = Defaults hn cfg"
  by (rule Config.Config.equality) (simp_all add: Defaults_def default_idem default_idem_cluster default_idem_loki)

lemma Defaults_valid:
  assumes "valid_config cfg" and "\<forall>n. hn = Some n \<longrightarrow> \<not> contains ''${'' n"
  shows "valid_config (Defaults hn cfg)"
proof -
  have "contains ''${'' (case hn of Some n \<Rightarrow> n | None \<Rightarrow> '''') = False"
    using assms(2) by (cases hn) auto
  then show ?thesis
    using assms(1) unfolding valid_config_def Let_def
    by (intro conjI) (simp_all add: Defaults_def valid_strategies_def validExporters_def, blast+)
qed

lemma expandEnv_lit: "CHR ''$'' \<notin> set s \<Longrightarrow> expandEnv env (s @ t) = s @ expandEnv env t"
proof (induction s)
  case (Cons c s)
  then have "env_ref (c # s @ t) = None" by (auto simp: env_ref_def split: list.splits)
  with Cons show ?case by simp
qed simp

lemma env_ref_text:
  assumes "piece_ok (Ref n)"
  shows "env_ref (piece_text (Ref n) @ rest) = Some (n, rest)"
proof -
  have b: "\<not> name_char (CHR ''}'')" by (simp add: name_char_def is_letter_def is_digit_def)
  have "takeWhile name_char (n @ CHR ''}'' # rest) = n" "dropWhile name_char (n @ CHR ''}'' # rest) = CHR ''}'' # rest"
    using assms b by (simp_all add: list_all_iff takeWhile_append2 dropWhile_append2)
  then show ?thesis using assms b by (simp add: env_ref_def)
qed

lemma expandEnv_ref:
  assumes "piece_ok (Ref n)"
  shows "expandEnv env (piece_text (Ref n) @ rest) = piece_value env (Ref n) @ expandEnv env rest"
  using env_ref_text [OF assms, of rest] by simp

lemma Reload_cases:
  "Snapshot_Reload m path s = (err, s') \<Longrightarrow>
     (err \<noteq> None \<and> s' = s)
     \<or> (err = None \<and> (\<exists>cfg. Validate cfg = None \<and> s' = \<lparr>snap_cfg = Defaults (hostname m) cfg\<rparr>))
     \<or> (\<exists>path. Load (read_file m) (yaml_Unmarshal m) (environment m) path = Panic)"
  by (auto simp: Snapshot_Reload_def Let_def split: go.splits option.splits)

lemma Load_no_panic: "Load rd un env path \<noteq> Panic"
  by (simp add: Load_def split: option.split)

lemma Reload_ready:
  assumes "valid_config (snap_cfg s)" "defaulted (snap_cfg s)" "plain_hostname m"
  shows "valid_config (snap_cfg (snd (Snapshot_Reload m path s))) \<and> defaulted (snap_cfg (snd (Snapshot_Reload m path s)))"
  using Reload_cases [of m path s "fst (Snapshot_Reload m path s)" "snd (Snapshot_Reload m path s)"]
    assms Load_no_panic Defaults_valid Defaults_defaulted
  by (fastforce simp: Validate_iff plain_hostname_def)

section \<open>Properties\<close>

text \<open>
  C31: substitution of environment references, on any text made of literals without a dollar sign and of
  well-formed references. Every reference to a set variable is replaced by its value, exactly once (the
  value is not expanded again); a reference to an unset variable and all literals stay as they are.
\<close>

theorem expandEnv_substitutes:
  assumes "list_all piece_ok ps"
  shows "expandEnv env (concat (map piece_text ps)) = concat (map (piece_value env) ps)"
  using assms
proof (induction ps)
  case (Cons p ps)
  then show ?case
    by (cases p) (simp add: expandEnv_lit, simp only: expandEnv_ref list.map concat.simps list.pred_inject simp_thms)
qed simp

theorem expandEnv_substitutes_witness:
  "expandEnv [''HOST'' \<mapsto> ''${X}'', ''X'' \<mapsto> ''never''] ''id: ${HOST}-${NONE};'' = ''id: ${X}-${NONE};''"
  using expandEnv_substitutes [of "[Lit ''id: '', Ref ''HOST'', Lit ''-'', Ref ''NONE'', Lit '';'']"
      "[''HOST'' \<mapsto> ''${X}'', ''X'' \<mapsto> ''never'']"]
  by (simp add: name_start_def name_char_def is_letter_def is_digit_def)

text \<open>
  C25: the running configuration is always valid and complete. Start the watcher on a snapshot that is;
  then whatever signals and polls arrive, and whatever each of them finds in the file, the environment
  and the decoder, the snapshot stays valid and completely defaulted: a file that cannot be read, parsed
  or validated changes nothing. The only assumption is that the host name, which becomes the node name
  of a cluster without one, has no unresolved reference in it.
\<close>

theorem watcher_keeps_config_valid:
  assumes "valid_config (snap_cfg snap)" "defaulted (snap_cfg snap)"
    and "\<forall>e \<in> set es. \<forall>m. event_machine e = Some m \<longrightarrow> plain_hostname m"
  shows "valid_config (snap_cfg (fst (StartWatcherHook onReload path watchSecs es (snap, st))))
       \<and> defaulted (snap_cfg (fst (StartWatcherHook onReload path watchSecs es (snap, st))))"
  using assms
proof (induction onReload path watchSecs es "(snap, st)" arbitrary: snap st rule: StartWatcherHook.induct)
  case (3 onReload path watchSecs m es)
  obtain snap' st' where w: "watcher_reload onReload m path (snap, st) = (snap', st')" by fastforce
  then have "snap' = snd (Snapshot_Reload m path snap)"
    by (auto simp: watcher_reload_def split: prod.splits option.splits)
  with Reload_ready 3 have "valid_config (snap_cfg snap') \<and> defaulted (snap_cfg snap')" by simp
  with 3 w show ?case by simp
next
  case (4 onReload path watchSecs m es)
  obtain snap' st' where w: "watcher_reload onReload m path (snap, st) = (snap', st')" by fastforce
  then have "snap' = snd (Snapshot_Reload m path snap)"
    by (auto simp: watcher_reload_def split: prod.splits option.splits)
  with Reload_ready 4 have "valid_config (snap_cfg snap') \<and> defaulted (snap_cfg snap')" by simp
  with 4 w show ?case by (cases "watchSecs > 0") simp_all
qed simp_all

text \<open>A minimal configuration.\<close>

definition demo_config :: Config where
  "demo_config = Defaults None (zero_Config\<lparr>cBackends := [\<lparr>Host = ''http://a'', bk_Weight = 0\<rparr>]\<rparr>)"

lemma demo_backend: "valid_backend \<lparr>Host = ''http://a'', bk_Weight = 0\<rparr>"
  by code_simp

lemma demo_config_valid: "valid_config demo_config"
  unfolding demo_config_def using demo_backend
  by (intro Defaults_valid) (simp_all add: valid_config_def zero_Config_def)

theorem watcher_keeps_config_valid_witness:
  "valid_config (snap_cfg (fst (StartWatcherHook None ''c.yml'' 0
      [Sighup \<lparr>read_file = (\<lambda>p. None), yaml_Unmarshal = (\<lambda>s. None), environment = Map.empty, hostname = None\<rparr>]
      (NewSnapshot demo_config, ()))))"
proof -
  have "valid_config (snap_cfg (NewSnapshot demo_config))" "defaulted (snap_cfg (NewSnapshot demo_config))"
    using demo_config_valid Defaults_defaulted by (simp_all add: NewSnapshot_def demo_config_def)
  from watcher_keeps_config_valid [OF this, of "[Sighup \<lparr>read_file = (\<lambda>p. None), yaml_Unmarshal = (\<lambda>s. None),
      environment = Map.empty, hostname = None\<rparr>]" None "''c.yml''" 0 "()"]
  show ?thesis by (simp add: plain_hostname_def)
qed

text \<open>
  C26: \<open>Validate\<close> accepts exactly the well-formed configurations; \<open>Defaults\<close> is idempotent and leaves no
  required field unset. As a consequence a configured \<open>max_retries\<close> of 0 becomes
  1: retries cannot be switched off.
\<close>

theorem validate_and_defaults:
  "(Validate cfg = None) = valid_config cfg
   \<and> Defaults hn (Defaults hn cfg) = Defaults hn cfg
   \<and> defaulted (Defaults hn cfg)

   \<and> rt_MaxRetries (cRetry (Defaults hn cfg)) = max 1 (rt_MaxRetries (cRetry cfg))"
proof (intro conjI)
  show "(Validate cfg = None) = valid_config cfg" by (rule Validate_iff)
  show "Defaults hn (Defaults hn cfg) = Defaults hn cfg" by (rule Defaults_idem)
  show "defaulted (Defaults hn cfg)" by (rule Defaults_defaulted)

  show "rt_MaxRetries (cRetry (Defaults hn cfg)) = max 1 (rt_MaxRetries (cRetry cfg))"
    by (simp add: Defaults_def)
qed

end
