(* ===== verification/Discover.thy ===== *)
theory Discover
  imports Config
begin

text \<open>
  Backend discovery (\<^verbatim>\<open>internal/discover/discover.go\<close>): the three providers, the shared polling loop and
  the factory. The resolver, the file system and the JSON decoder are arguments. The polling loop is a
  function from what it receives (ticks with the result of the lookup, or the stop signal) to the calls
  it makes to \<open>onChange\<close>.
\<close>

section \<open>The polling loop\<close>

fun same_from :: "url list \<Rightarrow> url list \<Rightarrow> bool" where
  "same_from (x # xs) (y # ys) = (x = y \<and> same_from xs ys)"
| "same_from _ _ = True"

definition SameList :: "url list \<Rightarrow> url list \<Rightarrow> bool" where
  "SameList a b = (if length a \<noteq> length b then False else same_from a b)"

datatype poll_event = PollStop | PollTick "url list option"

fun watchLoop :: "poll_event list \<Rightarrow> url list \<Rightarrow> url list list" where
  "watchLoop [] prev = []"
| "watchLoop (PollStop # es) prev = []"
| "watchLoop (PollTick res # es) prev =
     (case res of
        None \<Rightarrow> watchLoop es prev
      | Some got \<Rightarrow>
          if length got = 0 then watchLoop es prev
          else if SameList got prev then watchLoop es prev
          else got # watchLoop es got)"

section \<open>The providers\<close>

record StaticProvider =
  sp_backends :: "url list"

definition NewStaticProvider :: "url list \<Rightarrow> StaticProvider" where
  "NewStaticProvider bs = \<lparr>sp_backends = bs\<rparr>"

definition StaticProvider_Discover :: "StaticProvider \<Rightarrow> (string, url list) go" where
  "StaticProvider_Discover p = Ok (sp_backends p)"

definition StaticProvider_Update :: "url list \<Rightarrow> StaticProvider \<Rightarrow> StaticProvider" where
  "StaticProvider_Update bs p = p\<lparr>sp_backends := bs\<rparr>"

record DNSProvider =
  dns_name :: string
  dns_port :: int
  dns_interval :: time
  dns_backends :: "url list"

definition NewDNSProvider :: "string \<Rightarrow> int \<Rightarrow> time \<Rightarrow> DNSProvider" where
  "NewDNSProvider name port interval =
     (let port1 = (if port \<le> 0 then 80 else port)
      in \<lparr>dns_name = name, dns_port = port1, dns_interval = interval, dns_backends = []\<rparr>)"

definition dns_url :: "int \<Rightarrow> string \<Rightarrow> url" where
  "dns_url port addr = ''http://'' @ join_host_port addr (itoa port)"

text \<open>\<open>lookup\<close> is \<^verbatim>\<open>Resolver.LookupHost\<close>: the addresses, or nothing on an error.\<close>

definition DNSProvider_Discover :: "(string \<Rightarrow> string list option) \<Rightarrow> DNSProvider \<Rightarrow> (string, url list) go \<times> DNSProvider" where
  "DNSProvider_Discover lookup p =
     (case lookup (dns_name p) of
        None \<Rightarrow> (Fail (''dns lookup '' @ dns_name p), p)
      | Some addrs \<Rightarrow>
          let urls = sort (map (dns_url (dns_port p)) addrs)
          in (Ok urls, p\<lparr>dns_backends := urls\<rparr>))"

record FileProvider =
  fp_path :: string
  fp_interval :: time
  fp_backends :: "url list"

definition NewFileProvider :: "string \<Rightarrow> time \<Rightarrow> FileProvider" where
  "NewFileProvider path interval = \<lparr>fp_path = path, fp_interval = interval, fp_backends = []\<rparr>"

definition FileProvider_Discover :: "(string \<Rightarrow> string option) \<Rightarrow> (string \<Rightarrow> string list option) \<Rightarrow> FileProvider
    \<Rightarrow> (string, url list) go \<times> FileProvider" where
  "FileProvider_Discover read json_Unmarshal p =
     (case read (fp_path p) of
        None \<Rightarrow> (Fail (''read discovery file '' @ fp_path p), p)
      | Some data \<Rightarrow>
          (case json_Unmarshal data of
             None \<Rightarrow> (Fail (''parse discovery file '' @ fp_path p), p)
           | Some urls \<Rightarrow>
               if list_ex (\<lambda>u. u = '''') urls then (Fail (''discovery file '' @ fp_path p @ '': empty backend url''), p)
               else (Ok urls, p\<lparr>fp_backends := urls\<rparr>)))"

datatype Provider = Static StaticProvider | DNS DNSProvider | File FileProvider

record discover_Config =
  d_Provider :: string
  d_DNSName :: string
  d_DNSPort :: int
  d_FilePath :: string
  d_RefreshSec :: int

definition NewProvider :: "discover_Config \<Rightarrow> (string, Provider) go" where
  "NewProvider disc =
     (let interval0 = seconds (d_RefreshSec disc);
          interval = (if interval0 \<le> 0 then 30 * second else interval0)
      in
      if d_Provider disc = ''dns'' then
        (if d_DNSName disc = '''' then Fail ''dns provider requires dns_name''
         else Ok (DNS (NewDNSProvider (d_DNSName disc) (d_DNSPort disc) interval)))
      else if d_Provider disc = ''file'' then
        (if d_FilePath disc = '''' then Fail ''file provider requires file_path''
         else Ok (File (NewFileProvider (d_FilePath disc) interval)))
      else Ok (Static (NewStaticProvider [])))"

text \<open>The network and the files, as the providers see them at one moment.\<close>

record sources =
  lookupHost :: "string \<Rightarrow> string list option"
  disc_read :: "string \<Rightarrow> string option"
  disc_json :: "string \<Rightarrow> string list option"

definition Provider_Discover :: "sources \<Rightarrow> Provider \<Rightarrow> (string, url list) go \<times> Provider" where
  "Provider_Discover src p =
     (case p of
        Static sp \<Rightarrow> (StaticProvider_Discover sp, Static sp)
      | DNS dp \<Rightarrow> map_prod id DNS (DNSProvider_Discover (lookupHost src) dp)
      | File fp \<Rightarrow> map_prod id File (FileProvider_Discover (disc_read src) (disc_json src) fp))"

text \<open>
  What a watched provider receives: ticks at which the sources look like \<open>src\<close>, or the stop signal.
  \<open>Watch\<close> of the static provider only waits for the stop signal.
\<close>

datatype source_event = SourceStop | SourceTick sources

fun poll_of :: "Provider \<Rightarrow> source_event \<Rightarrow> poll_event" where
  "poll_of p SourceStop = PollStop"
| "poll_of p (SourceTick src) =
     PollTick (case fst (Provider_Discover src p) of Ok urls \<Rightarrow> Some urls | _ \<Rightarrow> None)"

definition Provider_Watch :: "Provider \<Rightarrow> source_event list \<Rightarrow> url list list" where
  "Provider_Watch p es =
     (case p of Static sp \<Rightarrow> [] | _ \<Rightarrow> watchLoop (map (poll_of p) es) [])"

section \<open>Lemmas\<close>

lemma SameList_iff: "SameList a b \<longleftrightarrow> a = b"
proof -
  have "length a = length b \<Longrightarrow> same_from a b \<longleftrightarrow> a = b"
    by (induction a b rule: list_induct2) auto
  then show ?thesis by (auto simp: SameList_def)
qed

text \<open>The non-empty results delivered before the stop signal.\<close>

fun delivered :: "poll_event list \<Rightarrow> url list list" where
  "delivered [] = []"
| "delivered (PollStop # es) = []"
| "delivered (PollTick res # es) =
     (case res of Some (u # us) \<Rightarrow> (u # us) # delivered es | _ \<Rightarrow> delivered es)"

lemma watchLoop_remdups: "prev # watchLoop es prev = remdups_adj (prev # delivered es)"
proof (induction es prev rule: watchLoop.induct)
  case (3 res es prev)
  show ?case
  proof (cases res)
    case None
    with 3 show ?thesis by simp
  next
    case (Some got)
    then show ?thesis
      using 3 by (cases got) (auto simp: SameList_iff)
  qed
qed simp_all

lemma delivered_nonempty: "[] \<notin> set (delivered es)"
  by (induction es rule: delivered.induct) (auto split: option.splits list.splits)

lemma watchLoop_start: "watchLoop es [] = remdups_adj (delivered es)"
proof -
  have "remdups_adj ([] # delivered es) = [] # remdups_adj (delivered es)"
    using delivered_nonempty [of es] by (cases "delivered es") auto
  with watchLoop_remdups [of "[]" es] show ?thesis by simp
qed

lemma dns_url_host:
  assumes "CHR ''['' \<notin> set addr" "CHR '']'' \<notin> set addr"
  shows "split_host_port (drop 7 (dns_url port addr)) = Some (addr, itoa port)"
proof -
  have "c \<in> set (itoa port) \<Longrightarrow> c \<noteq> CHR '':'' \<and> c \<noteq> CHR ''['' \<and> c \<noteq> CHR '']''" for c
    using itoa_chars [of c port] by auto
  then show ?thesis
    using split_join_host_port [OF assms, of "itoa port"] by (fastforce simp: dns_url_def)
qed

section \<open>Properties\<close>

text \<open>
  C32: a watched provider reports exactly the changes. The lists passed to \<open>onChange\<close> are the non-empty
  results of successful lookups, with consecutive repetitions removed, up to the stop signal: a failing
  lookup or an empty result is skipped, an unchanged list is never reported, and no change is missed.
\<close>

theorem watch_reports_changes:
  "watchLoop es [] = remdups_adj (delivered es)"
  by (rule watchLoop_start)

text \<open>
  DNS discovery yields usable and stable backends. The result is sorted and does not depend on the
  order in which the resolver lists the addresses, so a rotated answer is not a change; and each URL is
  \<^verbatim>\<open>http://\<close> followed by a \<open>host:port\<close> that splits back into the address, IPv6 addresses included, and the
  configured port.
\<close>

theorem dns_backends_stable:
  assumes "lookup (dns_name p) = Some addrs" "lookup' (dns_name p) = Some addrs'" "mset addrs = mset addrs'"
    and "\<forall>a\<in>set addrs. CHR ''['' \<notin> set a \<and> CHR '']'' \<notin> set a"
  shows "fst (DNSProvider_Discover lookup p) = fst (DNSProvider_Discover lookup' p)
       \<and> (\<exists>urls. fst (DNSProvider_Discover lookup p) = Ok urls \<and> sorted urls
            \<and> set (map (\<lambda>u. split_host_port (drop 7 u)) urls) = set (map (\<lambda>a. Some (a, itoa (dns_port p))) addrs))"
proof -
  have "sort (map (dns_url (dns_port p)) addrs) = sort (map (dns_url (dns_port p)) addrs')"
    using assms(3) by (intro properties_for_sort) simp_all
  moreover have "set (map (\<lambda>u. split_host_port (drop 7 u)) (sort (map (dns_url (dns_port p)) addrs)))
      = set (map (\<lambda>a. Some (a, itoa (dns_port p))) addrs)"
    using assms(4) by (simp add: image_image) (rule image_cong, simp_all add: dns_url_host)
  ultimately show ?thesis
    using assms(1,2) by (simp add: DNSProvider_Discover_def Let_def)
qed

theorem dns_backends_stable_witness:
  "fst (DNSProvider_Discover (\<lambda>n. Some [''::1'', ''10.0.0.1'']) (NewDNSProvider ''api'' 0 1))
   = fst (DNSProvider_Discover (\<lambda>n. Some [''10.0.0.1'', ''::1'']) (NewDNSProvider ''api'' 0 1))"
proof -
  let ?p = "NewDNSProvider ''api'' 0 1"
  have "mset [''::1'', ''10.0.0.1''] = mset [''10.0.0.1'', ''::1'']" by simp
  from dns_backends_stable [where p = ?p and lookup = "\<lambda>n. Some [''::1'', ''10.0.0.1'']"
      and lookup' = "\<lambda>n. Some [''10.0.0.1'', ''::1'']", OF refl refl this]
  show ?thesis by simp
qed

end
