(* ===== verification/Msgpack.thy ===== *)
theory Msgpack
  imports Prelude "HOL-Library.Multiset"
begin

text \<open>
  The MessagePack encoder of \<^verbatim>\<open>internal/logging/msgpack.go\<close>. A buffer is a list of bytes and every
  \<open>pack\<close> function returns the bytes it appends. A Go value of dynamic type is a \<open>mval\<close>: all signed integer
  types arrive as \<open>int64\<close>, all unsigned ones as \<open>uint64\<close>, a float as its 64 bits. A map is a list of
  entries with distinct keys. The decoder at the end follows the MessagePack specification and is the
  reference the encoder is proved against.
\<close>

section \<open>Encoder\<close>

datatype mval =
    VNil
  | VBool bool
  | VString string
  | VInt u64
  | VUint u64
  | VFloat u64
  | VMap "(string \<times> mval) list"
  | VArray "mval list"
  | VOther

text \<open>\<^verbatim>\<open>binary.BigEndian.PutUint\<close> on \<open>k\<close> bytes, and the bytes of a string.\<close>

definition be_bytes :: "nat \<Rightarrow> 'a::len word \<Rightarrow> byte list" where
  "be_bytes k v = map (\<lambda>i. ucast (drop_bit (8 * i) v)) (rev [0..<k])"

definition string_bytes :: "string \<Rightarrow> byte list" where
  "string_bytes s = map (\<lambda>c. of_char c) s"

definition writeUint16 :: "u16 \<Rightarrow> byte list" where
  "writeUint16 v = be_bytes 2 v"

definition writeUint32 :: "u32 \<Rightarrow> byte list" where
  "writeUint32 v = be_bytes 4 v"

definition writeUint64 :: "u64 \<Rightarrow> byte list" where
  "writeUint64 v = be_bytes 8 v"

definition packUint :: "u64 \<Rightarrow> byte list" where
  "packUint v =
     (if unat v < 128 then [ucast v]
      else if unat v \<le> 255 then 0xcc # [ucast v]
      else if unat v \<le> 65535 then 0xcd # writeUint16 (ucast v)
      else if unat v \<le> 4294967295 then 0xce # writeUint32 (ucast v)
      else 0xcf # writeUint64 v)"

definition packInt :: "u64 \<Rightarrow> byte list" where
  "packInt v =
     (if sint v \<ge> 0 then packUint v
      else if sint v \<ge> -32 then [ucast v]
      else if sint v \<ge> -128 then 0xd0 # [ucast v]
      else if sint v \<ge> -32768 then 0xd1 # writeUint16 (ucast v)
      else if sint v \<ge> -2147483648 then 0xd2 # writeUint32 (ucast v)
      else 0xd3 # writeUint64 v)"

definition packFloat64 :: "u64 \<Rightarrow> byte list" where
  "packFloat64 bits = 0xcb # writeUint64 bits"

definition packString :: "string \<Rightarrow> byte list" where
  "packString s =
     (let n = length s in
      (if n < 32 then [word_of_nat (160 + n)]
       else if n \<le> 255 then 0xd9 # [word_of_nat n]
       else if n \<le> 65535 then 0xda # writeUint16 (word_of_nat n)
       else 0xdb # writeUint32 (word_of_nat n)) @ string_bytes s)"

definition packArrayHeader :: "nat \<Rightarrow> byte list" where
  "packArrayHeader n =
     (if n < 16 then [word_of_nat (144 + n)]
      else if n \<le> 65535 then 0xdc # writeUint16 (word_of_nat n)
      else 0xdd # writeUint32 (word_of_nat n))"

definition packMapHeader :: "nat \<Rightarrow> byte list" where
  "packMapHeader n =
     (if n < 16 then [word_of_nat (128 + n)]
      else if n \<le> 65535 then 0xde # writeUint16 (word_of_nat n)
      else 0xdf # writeUint32 (word_of_nat n))"

text \<open>
  \<open>packMap\<close> writes the entries in the order of their keys; it receives each key with the bytes of its
  value.
\<close>

definition packMap :: "(string \<times> byte list) list \<Rightarrow> byte list" where
  "packMap m = packMapHeader (length m) @ concat (map (\<lambda>(k, bs). packString k @ bs) (sort_key fst m))"

fun packValue :: "mval \<Rightarrow> byte list" where
  "packValue VNil = [0xc0]"
| "packValue (VBool t) = (if t then [0xc3] else [0xc2])"
| "packValue (VString s) = packString s"
| "packValue (VInt v) = packInt v"
| "packValue (VUint v) = packUint v"
| "packValue (VFloat v) = packFloat64 v"
| "packValue (VMap m) = packMap (map (\<lambda>(k, v). (k, packValue v)) m)"
| "packValue (VArray xs) = packArrayHeader (length xs) @ concat (map packValue xs)"
| "packValue VOther = [0xc0]"

definition packForwardMessage :: "string \<Rightarrow> u64 \<Rightarrow> (string \<times> mval) list \<Rightarrow> byte list" where
  "packForwardMessage tag unixTime entries =
     packArrayHeader 3 @ packString tag @ packInt unixTime @ packValue (VMap entries)"

section \<open>Reference decoder\<close>

definition be_nat :: "byte list \<Rightarrow> nat" where
  "be_nat bs = foldl (\<lambda>a b. 256 * a + unat b) 0 bs"

definition unpack_len :: "nat \<Rightarrow> byte list \<Rightarrow> (nat \<times> byte list) option" where
  "unpack_len k bs = (if length bs < k then None else Some (be_nat (take k bs), drop k bs))"

definition unpack_unsigned :: "nat \<Rightarrow> byte list \<Rightarrow> (mval \<times> byte list) option" where
  "unpack_unsigned k bs = map_option (\<lambda>(n, rest). (VUint (word_of_nat n), rest)) (unpack_len k bs)"

definition unpack_signed :: "nat \<Rightarrow> byte list \<Rightarrow> (mval \<times> byte list) option" where
  "unpack_signed k bs =
     map_option (\<lambda>(n, rest). (VInt (word_of_int (if 2 * n < 256 ^ k then int n else int n - 256 ^ k)), rest))
       (unpack_len k bs)"

definition unpack_chars :: "nat \<times> byte list \<Rightarrow> (mval \<times> byte list) option" where
  "unpack_chars p =
     (case p of (n, bs) \<Rightarrow>
        if length bs < n then None else Some (VString (map (\<lambda>b. char_of (unat b)) (take n bs)), drop n bs))"

text \<open>The fuel bounds the number of nested calls.\<close>

fun unpack :: "nat \<Rightarrow> byte list \<Rightarrow> (mval \<times> byte list) option"
  and unpack_items :: "nat \<Rightarrow> nat \<Rightarrow> byte list \<Rightarrow> (mval list \<times> byte list) option"
  and unpack_entries :: "nat \<Rightarrow> nat \<Rightarrow> byte list \<Rightarrow> ((string \<times> mval) list \<times> byte list) option" where
  "unpack 0 bs = None"
| "unpack (Suc f) bs =
     (case bs of
        [] \<Rightarrow> None
      | b # rest \<Rightarrow>
          let t = unat b in
          if t < 128 then Some (VUint (word_of_nat t), rest)
          else if t < 144 then map_option (apfst VMap) (unpack_entries f (t - 128) rest)
          else if t < 160 then map_option (apfst VArray) (unpack_items f (t - 144) rest)
          else if t < 192 then unpack_chars (t - 160, rest)
          else if t = 0xc0 then Some (VNil, rest)
          else if t = 0xc2 then Some (VBool False, rest)
          else if t = 0xc3 then Some (VBool True, rest)
          else if t = 0xcb then map_option (\<lambda>(n, r). (VFloat (word_of_nat n), r)) (unpack_len 8 rest)
          else if t = 0xcc then unpack_unsigned 1 rest
          else if t = 0xcd then unpack_unsigned 2 rest
          else if t = 0xce then unpack_unsigned 4 rest
          else if t = 0xcf then unpack_unsigned 8 rest
          else if t = 0xd0 then unpack_signed 1 rest
          else if t = 0xd1 then unpack_signed 2 rest
          else if t = 0xd2 then unpack_signed 4 rest
          else if t = 0xd3 then unpack_signed 8 rest
          else if t = 0xd9 then Option.bind (unpack_len 1 rest) unpack_chars
          else if t = 0xda then Option.bind (unpack_len 2 rest) unpack_chars
          else if t = 0xdb then Option.bind (unpack_len 4 rest) unpack_chars
          else if t = 0xdc then Option.bind (unpack_len 2 rest) (\<lambda>(n, r). map_option (apfst VArray) (unpack_items f n r))
          else if t = 0xdd then Option.bind (unpack_len 4 rest) (\<lambda>(n, r). map_option (apfst VArray) (unpack_items f n r))
          else if t = 0xde then Option.bind (unpack_len 2 rest) (\<lambda>(n, r). map_option (apfst VMap) (unpack_entries f n r))
          else if t = 0xdf then Option.bind (unpack_len 4 rest) (\<lambda>(n, r). map_option (apfst VMap) (unpack_entries f n r))
          else if t \<ge> 224 then Some (VInt (word_of_int (int t - 256)), rest)
          else None)"
| "unpack_items f 0 bs = Some ([], bs)"
| "unpack_items 0 (Suc n) bs = None"
| "unpack_items (Suc f) (Suc n) bs =
     (case unpack f bs of
        None \<Rightarrow> None
      | Some (v, bs') \<Rightarrow> map_option (apfst (\<lambda>vs. v # vs)) (unpack_items f n bs'))"
| "unpack_entries f 0 bs = Some ([], bs)"
| "unpack_entries 0 (Suc n) bs = None"
| "unpack_entries (Suc f) (Suc n) bs =
     (case unpack f bs of
        Some (VString k, bs') \<Rightarrow>
          (case unpack f bs' of
             None \<Rightarrow> None
           | Some (v, bs'') \<Rightarrow> map_option (apfst (\<lambda>es. (k, v) # es)) (unpack_entries f n bs''))
      | _ \<Rightarrow> None)"

declare unpack.simps [simp del]

text \<open>
  What a value means on the wire: non-negative integers lose the distinction of their Go type, map
  entries are ordered by key, and an unsupported value is nil.
\<close>

fun wire :: "mval \<Rightarrow> mval" where
  "wire (VInt v) = (if sint v \<ge> 0 then VUint v else VInt v)"
| "wire (VMap m) = VMap (sort_key fst (map (\<lambda>(k, v). (k, wire v)) m))"
| "wire (VArray xs) = VArray (map wire xs)"
| "wire VOther = VNil"
| "wire v = v"

text \<open>Every length fits the 32-bit length field.\<close>

fun packable :: "mval \<Rightarrow> bool" where
  "packable (VString s) = (length s < 2 ^ 32)"
| "packable (VMap m) = (length m < 2 ^ 32 \<and> list_all (\<lambda>(k, v). length k < 2 ^ 32 \<and> packable v) m)"
| "packable (VArray xs) = (length xs < 2 ^ 32 \<and> list_all packable xs)"
| "packable v = True"

fun fuel_for :: "mval \<Rightarrow> nat" where
  "fuel_for (VMap m) = 1 + sum_list (map (\<lambda>(k, v). 2 + fuel_for v) m)"
| "fuel_for (VArray xs) = 1 + sum_list (map (\<lambda>v. 1 + fuel_for v) xs)"
| "fuel_for v = 1"

section \<open>Lemmas\<close>

lemma be_nat_Cons: "be_nat (b # bs) = unat b * 256 ^ length bs + be_nat bs"
proof -
  have "foldl (\<lambda>a b. 256 * a + unat b) a bs = a * 256 ^ length bs + foldl (\<lambda>a b. 256 * a + unat b) 0 bs"
    for a and bs :: "byte list"
  proof (induction bs arbitrary: a rule: list.induct)
    case (Cons b bs)
    show ?case
      using Cons [of "256 * a + unat b"] Cons [of "unat b"] by (simp add: algebra_simps)
  qed simp
  from this [of "unat b" bs] show ?thesis by (simp add: be_nat_def)
qed

lemma length_be_bytes [simp]: "length (be_bytes k v) = k"
  by (simp add: be_bytes_def)

lemma be_nat_bytes: "be_nat (be_bytes k v) = unat v mod 256 ^ k"
proof (induction k)
  case 0
  show ?case by (simp add: be_bytes_def be_nat_def)
next
  case (Suc k)
  have b: "be_bytes (Suc k) v = ucast (drop_bit (8 * k) v) # be_bytes k v"
    by (simp add: be_bytes_def)
  have "(256 :: nat) ^ k = 2 ^ (8 * k)" by (simp add: power_mult)
  then have d: "unat (drop_bit (8 * k) v) = unat v div 256 ^ k"
    by (metis drop_bit_eq_div unat_drop_bit_eq)
  have u: "unat (ucast (drop_bit (8 * k) v) :: byte) = unat v div 256 ^ k mod 256"
    by (simp only: unsigned_ucast_eq d take_bit_eq_mod) simp
  have "unat v mod 256 ^ Suc k = 256 ^ k * (unat v div 256 ^ k mod 256) + unat v mod 256 ^ k"
    using mod_mult2_eq [of "unat v" "256 ^ k" 256] by (simp add: mult.commute)
  then show ?case unfolding b be_nat_Cons u length_be_bytes Suc by (simp only: mult.commute)
qed

lemma unpack_len_bytes: "unpack_len k (be_bytes k v @ rest) = Some (unat v mod 256 ^ k, rest)"
  by (simp add: unpack_len_def be_nat_bytes)

lemma unpack_unsigned_bytes:
  "unpack_unsigned k (be_bytes k v @ rest) = Some (VUint (word_of_nat (unat v mod 256 ^ k)), rest)"
  by (simp add: unpack_unsigned_def unpack_len_bytes)

lemma unat_ucast_small: "unat (v :: u64) < 2 ^ LENGTH('a::len) \<Longrightarrow> unat (ucast v :: 'a word) = unat v"
  by (simp add: unsigned_ucast_eq take_bit_nat_eq_self)

lemma be_bytes_one: "be_bytes 1 v = [ucast v]"
  by (simp add: be_bytes_def)

lemma unpack_packUint: "unpack (Suc f) (packUint v @ rest) = Some (VUint v, rest)"
proof -
  consider "unat v < 128" | "128 \<le> unat v" "unat v \<le> 255" | "255 < unat v" "unat v \<le> 65535"
    | "65535 < unat v" "unat v \<le> 4294967295" | "4294967295 < unat v" by linarith
  then show ?thesis
  proof cases
    case 1
    then have "unat (ucast v :: byte) = unat v" by (intro unat_ucast_small) simp
    with 1 show ?thesis by (simp add: packUint_def unpack.simps)
  next
    case 2
    then have "unat (ucast v :: byte) = unat v" by (intro unat_ucast_small) simp
    with 2 show ?thesis
      using unpack_unsigned_bytes [of 1 "ucast v :: byte" rest]
      by (simp add: packUint_def unpack.simps be_bytes_one [simplified])
  next
    case 3
    then have "unat (ucast v :: u16) = unat v" by (intro unat_ucast_small) simp
    with 3 show ?thesis
      using unpack_unsigned_bytes [of 2 "ucast v :: u16" rest]
      by (simp add: packUint_def unpack.simps writeUint16_def)
  next
    case 4
    then have "unat (ucast v :: u32) = unat v" by (intro unat_ucast_small) simp
    with 4 show ?thesis
      using unpack_unsigned_bytes [of 4 "ucast v :: u32" rest]
      by (simp add: packUint_def unpack.simps writeUint32_def)
  next
    case 5
    then show ?thesis
      using unpack_unsigned_bytes [of 8 v rest] unat_u64 [of v]
      by (simp add: packUint_def unpack.simps writeUint64_def)
  qed
qed

text \<open>A negative value in \<open>8 k\<close> bits: the unsigned reading is larger by \<open>256 ^ k\<close>.\<close>

lemma unat_negative:
  assumes "sint (v :: u64) < 0" "- (2 ^ LENGTH('a::len)) \<le> 2 * sint v" "LENGTH('a) \<le> 64"
  shows "int (unat (ucast v :: 'a word)) = sint v + 2 ^ LENGTH('a)"
proof -
  have "uint v = take_bit 64 (sint v)" by (simp add: uint_sint)
  then have "uint (ucast v :: 'a word) = take_bit LENGTH('a) (sint v)"
    using assms(3) by (simp add: unsigned_ucast_eq min_def)
  also have "\<dots> = (sint v + 2 ^ LENGTH('a)) mod 2 ^ LENGTH('a)" by (simp add: take_bit_eq_mod)
  also have "\<dots> = sint v + 2 ^ LENGTH('a)"
    using assms(1,2) by (intro mod_pos_pos_trivial) simp_all
  finally show ?thesis by simp
qed

lemma unpack_signed_bytes:
  assumes "sint (v :: u64) < 0" "- (2 ^ LENGTH('a::len)) \<le> 2 * sint v" "LENGTH('a) = 8 * k" "LENGTH('a) \<le> 64"
  shows "unpack_signed k (be_bytes k (ucast v :: 'a word) @ rest) = Some (VInt v, rest)"
proof -
  let ?n = "unat (ucast v :: 'a word)"
  have pw: "(256 :: nat) ^ k = 2 ^ LENGTH('a)" by (simp add: assms(3) power_mult)
  have n: "int ?n = sint v + 2 ^ LENGTH('a)" by (rule unat_negative [OF assms(1,2,4)])
  have "?n < 2 ^ LENGTH('a)" by (rule unsigned_less)
  then have m: "?n mod 256 ^ k = ?n" by (simp add: pw)
  have "int (256 ^ k) \<le> int (2 * ?n)" using n assms(2) by (simp add: pw)
  then have "\<not> 2 * ?n < 256 ^ k" by linarith
  moreover have "int ?n - 256 ^ k = sint v" using n by (metis add_diff_cancel_right' of_nat_numeral of_nat_power pw)
  ultimately show ?thesis by (simp add: unpack_signed_def unpack_len_bytes m)
qed

lemma unpack_packInt: "unpack (Suc f) (packInt v @ rest) = Some (wire (VInt v), rest)"
proof -
  consider "sint v \<ge> 0" | "sint v < 0" "sint v \<ge> -32" | "sint v < -32" "sint v \<ge> -128"
    | "sint v < -128" "sint v \<ge> -32768" | "sint v < -32768" "sint v \<ge> -2147483648" | "sint v < -2147483648" by linarith
  then show ?thesis
  proof cases
    case 1
    then show ?thesis by (simp add: packInt_def unpack_packUint)
  next
    case 2
    then have p: "packInt v = [ucast v]" by (simp add: packInt_def)
    from 2 have n: "int (unat (ucast v :: byte)) = sint v + 256" using unat_negative [of v, where 'a = 8] by simp
    then have "unat (ucast v :: byte) \<ge> 224" using 2 by linarith
    with 2 n show ?thesis by (simp add: p unpack.simps)
  next
    case 3
    then show ?thesis
      using unpack_signed_bytes [of v 1 rest, where 'a = 8]
      by (simp add: packInt_def unpack.simps be_bytes_one [simplified])
  next
    case 4
    then show ?thesis
      using unpack_signed_bytes [of v 2 rest, where 'a = 16] by (simp add: packInt_def unpack.simps writeUint16_def)
  next
    case 5
    then show ?thesis
      using unpack_signed_bytes [of v 4 rest, where 'a = 32] by (simp add: packInt_def unpack.simps writeUint32_def)
  next
    case 6
    then show ?thesis
      using unpack_signed_bytes [of v 8 rest, where 'a = 64] sint_greater_eq [of v]
      by (simp add: packInt_def unpack.simps writeUint64_def)
  qed
qed

lemma char_of_byte: "char_of (unat (of_char c :: byte)) = c"
proof -
  have "unat (of_char c :: byte) = of_char c" by (simp add: of_char_def)
  then show ?thesis by simp
qed

lemma unpack_chars_bytes: "unpack_chars (length s, string_bytes s @ rest) = Some (VString s, rest)"
  by (simp add: unpack_chars_def string_bytes_def char_of_byte comp_def)

lemma unat_word_of_nat_small: "n < 2 ^ LENGTH('a::len) \<Longrightarrow> unat (word_of_nat n :: 'a word) = n"
  by (simp add: unat_of_nat)

lemma unpack_packString:
  assumes "length s < 2 ^ 32"
  shows "unpack (Suc f) (packString s @ rest) = Some (VString s, rest)"
proof -
  let ?n = "length s"
  consider "?n < 32" | "32 \<le> ?n" "?n \<le> 255" | "255 < ?n" "?n \<le> 65535" | "65535 < ?n" by linarith
  then show ?thesis
  proof cases
    case 1
    then have "unat (word_of_nat (160 + ?n) :: byte) = 160 + ?n" by (intro unat_word_of_nat_small) simp
    with 1 show ?thesis by (simp add: packString_def unpack.simps unpack_chars_bytes)
  next
    case 2
    then have u: "unat (word_of_nat ?n :: byte) = ?n" by (intro unat_word_of_nat_small) simp
    have "unpack_len 1 (word_of_nat ?n # string_bytes s @ rest) = Some (?n, string_bytes s @ rest)"
      using unpack_len_bytes [of 1 "word_of_nat ?n :: byte" "string_bytes s @ rest"] 2 u
      by (simp add: be_bytes_one [simplified])
    with 2 show ?thesis by (simp add: packString_def unpack.simps unpack_chars_bytes)
  next
    case 3
    then have u: "unat (word_of_nat ?n :: u16) = ?n" by (intro unat_word_of_nat_small) simp
    show ?thesis
      using unpack_len_bytes [of 2 "word_of_nat ?n :: u16" "string_bytes s @ rest"] 3 u
      by (simp add: packString_def unpack.simps unpack_chars_bytes writeUint16_def)
  next
    case 4
    then have u: "unat (word_of_nat ?n :: u32) = ?n" using assms by (intro unat_word_of_nat_small) simp
    show ?thesis
      using unpack_len_bytes [of 4 "word_of_nat ?n :: u32" "string_bytes s @ rest"] 4 u assms
      by (simp add: packString_def unpack.simps unpack_chars_bytes writeUint32_def)
  qed
qed

lemma unpack_arrayHeader:
  assumes "n < 2 ^ 32"
  shows "unpack (Suc f) (packArrayHeader n @ rest) = map_option (apfst VArray) (unpack_items f n rest)"
proof -
  consider "n < 16" | "16 \<le> n" "n \<le> 65535" | "65535 < n" by linarith
  then show ?thesis
  proof cases
    case 1
    then have "unat (word_of_nat (144 + n) :: byte) = 144 + n" by (intro unat_word_of_nat_small) simp
    with 1 show ?thesis by (simp add: packArrayHeader_def unpack.simps)
  next
    case 2
    then have "unat (word_of_nat n :: u16) = n" by (intro unat_word_of_nat_small) simp
    with 2 show ?thesis
      using unpack_len_bytes [of 2 "word_of_nat n :: u16" rest]
      by (simp add: packArrayHeader_def unpack.simps writeUint16_def)
  next
    case 3
    then have "unat (word_of_nat n :: u32) = n" using assms by (intro unat_word_of_nat_small) simp
    with 3 show ?thesis
      using unpack_len_bytes [of 4 "word_of_nat n :: u32" rest] assms
      by (simp add: packArrayHeader_def unpack.simps writeUint32_def)
  qed
qed

lemma unpack_mapHeader:
  assumes "n < 2 ^ 32"
  shows "unpack (Suc f) (packMapHeader n @ rest) = map_option (apfst VMap) (unpack_entries f n rest)"
proof -
  consider "n < 16" | "16 \<le> n" "n \<le> 65535" | "65535 < n" by linarith
  then show ?thesis
  proof cases
    case 1
    then have "unat (word_of_nat (128 + n) :: byte) = 128 + n" by (intro unat_word_of_nat_small) simp
    with 1 show ?thesis by (simp add: packMapHeader_def unpack.simps)
  next
    case 2
    then have "unat (word_of_nat n :: u16) = n" by (intro unat_word_of_nat_small) simp
    with 2 show ?thesis
      using unpack_len_bytes [of 2 "word_of_nat n :: u16" rest]
      by (simp add: packMapHeader_def unpack.simps writeUint16_def)
  next
    case 3
    then have "unat (word_of_nat n :: u32) = n" using assms by (intro unat_word_of_nat_small) simp
    with 3 show ?thesis
      using unpack_len_bytes [of 4 "word_of_nat n :: u32" rest] assms
      by (simp add: packMapHeader_def unpack.simps writeUint32_def)
  qed
qed

lemma insort_key_map: "insort_key f (g x) (map g xs) = map g (insort_key (\<lambda>y. f (g y)) x xs)"
  by (induction xs) auto

lemma sort_key_map: "sort_key f (map g xs) = map g (sort_key (\<lambda>y. f (g y)) xs)"
  by (induction xs) (simp_all add: insort_key_map)

lemma sort_key_fst_map: "sort_key fst (map (\<lambda>(k, v). (k, g v)) m) = map (\<lambda>(k, v). (k, g v)) (sort_key fst m)"
  unfolding sort_key_map by (simp add: case_prod_unfold)

lemma unpack_items_ok:
  assumes "\<And>x f rest. x \<in> set xs \<Longrightarrow> fuel_for x \<le> f \<Longrightarrow> unpack f (packValue x @ rest) = Some (wire x, rest)"
    and "sum_list (map (\<lambda>v. 1 + fuel_for v) xs) \<le> f"
  shows "unpack_items f (length xs) (concat (map packValue xs) @ rest) = Some (map wire xs, rest)"
  using assms
proof (induction xs arbitrary: f)
  case (Cons x xs)
  then obtain g where f: "f = Suc g" by (cases f) auto
  have "unpack g (packValue x @ (concat (map packValue xs) @ rest)) = Some (wire x, concat (map packValue xs) @ rest)"
    using Cons.prems f by (intro Cons.prems(1)) simp_all
  moreover have "unpack_items g (length xs) (concat (map packValue xs) @ rest) = Some (map wire xs, rest)"
    using Cons.prems f by (intro Cons.IH) simp_all
  ultimately show ?case by (simp add: f)
qed simp

lemma unpack_entries_ok:
  assumes "\<And>k v f rest. (k, v) \<in> set m \<Longrightarrow> fuel_for v \<le> f \<Longrightarrow> unpack f (packValue v @ rest) = Some (wire v, rest)"
    and "\<And>k v. (k, v) \<in> set m \<Longrightarrow> length k < 2 ^ 32"
    and "sum_list (map (\<lambda>(k, v). 2 + fuel_for v) m) \<le> f"
  shows "unpack_entries f (length m) (concat (map (\<lambda>(k, v). packString k @ packValue v) m) @ rest)
    = Some (map (\<lambda>(k, v). (k, wire v)) m, rest)"
  using assms
proof (induction m arbitrary: f)
  case (Cons e m)
  obtain k v where e: "e = (k, v)" by fastforce
  obtain g where f: "f = Suc (Suc g)" using Cons.prems(3) e by (cases f; cases "f - 1") auto
  let ?r = "concat (map (\<lambda>(k, v). packString k @ packValue v) m) @ rest"
  have "unpack (Suc g) (packString k @ packValue v @ ?r) = Some (VString k, packValue v @ ?r)"
    using Cons.prems(2) [of k v] by (intro unpack_packString) (simp add: e)
  moreover have "unpack (Suc g) (packValue v @ ?r) = Some (wire v, ?r)"
    using Cons.prems(3) f e by (intro Cons.prems(1) [of k v]) simp_all
  moreover have "unpack_entries (Suc g) (length m) ?r = Some (map (\<lambda>(k, v). (k, wire v)) m, rest)"
  proof (rule Cons.IH)
    show "\<And>k v f rest. (k, v) \<in> set m \<Longrightarrow> fuel_for v \<le> f \<Longrightarrow> unpack f (packValue v @ rest) = Some (wire v, rest)"
      using Cons.prems(1) by (meson list.set_intros(2))
    show "\<And>k v. (k, v) \<in> set m \<Longrightarrow> length k < 2 ^ 32"
      using Cons.prems(2) by (meson list.set_intros(2))
    show "(\<Sum>(k, v)\<leftarrow>m. 2 + fuel_for v) \<le> Suc g" using Cons.prems(3) f e by simp
  qed
  ultimately show ?case by (simp add: f e)
qed simp

lemma sum_list_sort_key: "sum_list (map g (sort_key k xs)) = (sum_list (map g xs) :: nat)"
proof -
  have "mset (map g (sort_key k xs)) = mset (map g xs)" by simp
  then show ?thesis by (metis sum_mset_sum_list)
qed

lemma unpack_packValue:
  "packable v \<Longrightarrow> fuel_for v \<le> f \<Longrightarrow> unpack f (packValue v @ rest) = Some (wire v, rest)"
proof (induction v arbitrary: f rest)
  case VNil
  then show ?case by (cases f) (simp_all add: unpack.simps)
next
  case (VBool b)
  then show ?case by (cases f) (simp_all add: unpack.simps)
next
  case (VString s)
  then show ?case by (cases f) (simp_all add: unpack_packString)
next
  case (VInt v)
  then show ?case by (cases f) (simp_all add: unpack_packInt del: wire.simps)
next
  case (VUint v)
  then show ?case by (cases f) (simp_all add: unpack_packUint)
next
  case (VFloat v)
  then show ?case
    using unpack_len_bytes [of 8 v rest] unat_u64 [of v]
    by (cases f) (simp_all add: unpack.simps packFloat64_def writeUint64_def)
next
  case (VMap m)
  then obtain g where f: "f = Suc g" by (cases f) auto
  let ?s = "sort_key fst m"
  have IH: "\<And>k v f rest. (k, v) \<in> set m \<Longrightarrow> fuel_for v \<le> f \<Longrightarrow> unpack f (packValue v @ rest) = Some (wire v, rest)"
    using VMap.IH VMap.prems(1) by (fastforce simp: list_all_iff)
  have "sum_list (map (\<lambda>(k, v). 2 + fuel_for v) ?s) \<le> g"
    using VMap.prems(2) f by (simp add: sum_list_sort_key)
  then have e: "unpack_entries g (length ?s) (concat (map (\<lambda>(k, v). packString k @ packValue v) ?s) @ rest)
      = Some (map (\<lambda>(k, v). (k, wire v)) ?s, rest)"
    using VMap.prems(1) IH by (intro unpack_entries_ok) (auto simp: list_all_iff)
  have p: "packValue (VMap m) = packMapHeader (length m) @ concat (map (\<lambda>(k, v). packString k @ packValue v) ?s)"
    by (simp add: packMap_def sort_key_fst_map) (simp add: comp_def case_prod_unfold)
  show ?case
    using e VMap.prems(1) by (simp add: p f unpack_mapHeader sort_key_fst_map del: packValue.simps)
next
  case (VArray xs)
  then obtain g where f: "f = Suc g" by (cases f) auto
  have "unpack_items g (length xs) (concat (map packValue xs) @ rest) = Some (map wire xs, rest)"
    using VArray.prems VArray.IH f by (intro unpack_items_ok) (auto simp: list_all_iff)
  with VArray.prems(1) show ?case by (simp add: f unpack_arrayHeader)
next
  case VOther
  then show ?case by (cases f) (simp_all add: unpack.simps)
qed

section \<open>Properties\<close>

text \<open>
  C33: a forward message can be decoded. A MessagePack decoder that reads a stream starting with the bytes
  of \<open>packForwardMessage\<close> finds a three-element array with the tag, the time and the record, its entries
  in key order, and stops exactly at the end of the message, for every integer of 64 bits and every
  record whose strings and collections have fewer than \<open>2 ^ 32\<close> elements.
\<close>

theorem forward_message_roundtrip:
  assumes "length tag < 2 ^ 32" "packable (VMap entries)"
    and "6 + fuel_for (VMap entries) \<le> f"
  shows "unpack f (packForwardMessage tag unixTime entries @ rest)
       = Some (VArray [VString tag, wire (VInt unixTime), wire (VMap entries)], rest)"
proof -
  have "packForwardMessage tag unixTime entries = packValue (VArray [VString tag, VInt unixTime, VMap entries])"
    by (simp add: packForwardMessage_def numeral_3_eq_3)
  moreover have "packable (VArray [VString tag, VInt unixTime, VMap entries])" using assms by simp
  moreover have "fuel_for (VArray [VString tag, VInt unixTime, VMap entries]) \<le> f" using assms(3) by simp
  ultimately have "unpack f (packForwardMessage tag unixTime entries @ rest)
      = Some (wire (VArray [VString tag, VInt unixTime, VMap entries]), rest)"
    by (metis unpack_packValue)
  then show ?thesis by simp
qed

theorem forward_message_roundtrip_witness:
  "unpack 20 (packForwardMessage ''haribon'' (word_of_int 1700000000) [(''status'', VInt 200), (''path'', VString ''/'')] @ [7])
   = Some (VArray [VString ''haribon'', VUint 1700000000, VMap [(''path'', VString ''/''), (''status'', VUint 200)]], [7])"
  using forward_message_roundtrip [of "''haribon''" "[(''status'', VInt 200), (''path'', VString ''/'')]" 20
      "word_of_int 1700000000" "[7]"]
  by simp

end
