(* ===== verification/Logging.thy ===== *)
theory Logging
  imports Msgpack
begin

text \<open>
  The log exporters of \<^verbatim>\<open>internal/logging/exporter.go\<close>: the entry and its two text forms, the stdout and
  file exporters, the batched queue every remote exporter is built on, the bodies the Loki,
  Elasticsearch and Fluent Bit exporters send, and the fan-out. \<^verbatim>\<open>json.Marshal\<close>, \<^verbatim>\<open>time.Parse\<close> and the
  network are arguments.

  The batch goroutine is a state machine. Its channel is a bounded queue, \<open>phase\<close> says whether the
  goroutine is in its main loop, in the drain loop after \<open>done\<close> was closed, or has returned, and
  \<open>sent\<close> collects the batches handed to the exporter's \<open>send\<close>, oldest first.
\<close>

section \<open>Entries\<close>

record LogEntry =
  le_Time :: string
  le_Method :: string
  le_Path :: string
  le_Backend :: string
  le_Status :: int
  le_DurationMS :: int
  le_Retries :: int
  le_Level :: string

definition LogEntry_Record :: "LogEntry \<Rightarrow> (string \<times> mval) list" where
  "LogEntry_Record e =
     [(''time'', VString (le_Time e)), (''method'', VString (le_Method e)), (''path'', VString (le_Path e)),
      (''backend'', VString (le_Backend e)), (''status'', VInt (word_of_int (le_Status e))),
      (''duration_ms'', VInt (word_of_int (le_DurationMS e))), (''level'', VString (le_Level e))]
     @ (if le_Retries e > 0 then [(''retries'', VInt (word_of_int (le_Retries e)))] else [])"

text \<open>\<open>%-5s\<close>; the levels the program logs are ASCII, so that bytes and characters are counted alike.\<close>

definition pad5 :: "string \<Rightarrow> string" where
  "pad5 s = s @ replicate (5 - length s) (CHR '' '')"

text \<open>\<open>retime\<close> parses an RFC 3339 time and prints it in UTC to the second; nothing on a parse error.\<close>

definition FormatText :: "(string \<Rightarrow> string option) \<Rightarrow> LogEntry \<Rightarrow> string" where
  "FormatText retime e =
     (let ts = (case retime (le_Time e) of Some t \<Rightarrow> t | None \<Rightarrow> le_Time e);
          b = (if le_Backend e = '''' then ''-'' else le_Backend e);
          line = ts @ '' '' @ pad5 (map upper_char (le_Level e)) @ '' '' @ le_Method e @ '' '' @ le_Path e
             @ '' -> '' @ b @ '' '' @ itoa (le_Status e) @ '' '' @ itoa (le_DurationMS e) @ ''ms''
      in if le_Retries e > 0 then line @ '' retries='' @ itoa (le_Retries e) else line)"

text \<open>The line a local exporter writes, or nothing when the entry cannot be marshalled.\<close>

definition format_line :: "(string \<Rightarrow> string option) \<Rightarrow> (LogEntry \<Rightarrow> string option) \<Rightarrow> string \<Rightarrow> LogEntry \<Rightarrow> string option" where
  "format_line retime marshal format e =
     (if format = ''text'' then Some (FormatText retime e @ [CHR 0x0A])
      else map_option (\<lambda>b. b @ [CHR 0x0A]) (marshal e))"

section \<open>Local exporters\<close>

record StdoutExporter =
  so_Format :: string
  so_out :: string

definition StdoutExporter_Write :: "(string \<Rightarrow> string option) \<Rightarrow> (LogEntry \<Rightarrow> string option) \<Rightarrow> LogEntry \<Rightarrow> StdoutExporter \<Rightarrow> StdoutExporter" where
  "StdoutExporter_Write retime marshal e x =
     (case format_line retime marshal (so_Format x) e of
        None \<Rightarrow> x
      | Some line \<Rightarrow> x\<lparr>so_out := so_out x @ line\<rparr>)"

text \<open>\<open>fe_File\<close> is the content of the open file, or nothing once it is closed.\<close>

record FileExporter =
  fe_File :: "string option"
  fe_Format :: string

definition FileExporter_Write :: "(string \<Rightarrow> string option) \<Rightarrow> (LogEntry \<Rightarrow> string option) \<Rightarrow> LogEntry \<Rightarrow> FileExporter \<Rightarrow> FileExporter" where
  "FileExporter_Write retime marshal e x =
     (case fe_File x of
        None \<Rightarrow> x
      | Some content \<Rightarrow>
          (case format_line retime marshal (fe_Format x) e of
             None \<Rightarrow> x
           | Some line \<Rightarrow> x\<lparr>fe_File := Some (content @ line)\<rparr>))"

definition FileExporter_Close :: "FileExporter \<Rightarrow> FileExporter" where
  "FileExporter_Close x = (if fe_File x \<noteq> None then x\<lparr>fe_File := None\<rparr> else x)"

section \<open>The batched queue\<close>

definition defaultQueueDepth :: nat where "defaultQueueDepth = 4096"
definition defaultMaxBatch :: nat where "defaultMaxBatch = 256"

datatype run_phase = Looping | Draining | Returned

record batch =
  bt_name :: string
  bt_queue :: "LogEntry list"
  bt_done :: bool
  bt_dropped :: nat
  bt_phase :: run_phase
  bt_buf :: "LogEntry list"
  bt_sent :: "LogEntry list list"

definition newBatch :: "string \<Rightarrow> batch" where
  "newBatch name =
     \<lparr>bt_name = name, bt_queue = [], bt_done = False, bt_dropped = 0, bt_phase = Looping, bt_buf = [], bt_sent = []\<rparr>"

text \<open>A send on the channel succeeds when there is room; otherwise the \<open>default\<close> case counts a drop.\<close>

definition batch_Write :: "LogEntry \<Rightarrow> batch \<Rightarrow> batch" where
  "batch_Write e b =
     (if length (bt_queue b) < defaultQueueDepth then b\<lparr>bt_queue := bt_queue b @ [e]\<rparr>
      else b\<lparr>bt_dropped := bt_dropped b + 1\<rparr>)"

text \<open>\<open>closeOnce\<close> closes \<open>done\<close>; \<open>Close\<close> returns once the goroutine has.\<close>

definition batch_Close :: "batch \<Rightarrow> batch" where
  "batch_Close b = b\<lparr>bt_done := True\<rparr>"

definition batch_flush :: "batch \<Rightarrow> batch" where
  "batch_flush b =
     (if bt_buf b = [] then b else b\<lparr>bt_sent := bt_sent b @ [bt_buf b], bt_buf := []\<rparr>)"

text \<open>Receiving one entry, in either loop.\<close>

definition batch_receive :: "batch \<Rightarrow> batch" where
  "batch_receive b =
     (case bt_queue b of
        [] \<Rightarrow> b
      | e # q \<Rightarrow>
          let b' = b\<lparr>bt_queue := q, bt_buf := bt_buf b @ [e]\<rparr>
          in if length (bt_buf b') \<ge> defaultMaxBatch then batch_flush b' else b')"

text \<open>
  The steps of the goroutine: \<open>select\<close> may take any ready case of the main loop; the drain loop receives
  while the queue has entries, then flushes and returns.
\<close>

inductive batch_run :: "batch \<Rightarrow> batch \<Rightarrow> bool" where
  receive: "bt_phase b = Looping \<Longrightarrow> bt_queue b \<noteq> [] \<Longrightarrow> batch_run b (batch_receive b)"
| tick: "bt_phase b = Looping \<Longrightarrow> batch_run b (batch_flush b)"
| see_done: "bt_phase b = Looping \<Longrightarrow> bt_done b \<Longrightarrow> batch_run b (b\<lparr>bt_phase := Draining\<rparr>)"
| drain: "bt_phase b = Draining \<Longrightarrow> bt_queue b \<noteq> [] \<Longrightarrow> batch_run b (batch_receive b)"
| drained: "bt_phase b = Draining \<Longrightarrow> bt_queue b = [] \<Longrightarrow> batch_run b ((batch_flush b)\<lparr>bt_phase := Returned\<rparr>)"

section \<open>Remote exporters\<close>

text \<open>\<^verbatim>\<open>strings.TrimRight(url, "/")\<close>.\<close>

definition trim_slashes :: "string \<Rightarrow> string" where
  "trim_slashes s = rev (dropWhile (\<lambda>c. c = CHR ''/'') (rev s))"

record LokiExporter =
  loki_batch :: batch
  loki_url :: string
  loki_labels :: "string \<rightharpoonup> string"

definition NewLokiExporter :: "string \<Rightarrow> (string \<rightharpoonup> string) \<Rightarrow> LokiExporter" where
  "NewLokiExporter u labels =
     (let u1 = (if u = '''' then ''http://localhost:3100'' else u)
      in \<lparr>loki_batch = newBatch ''loki'', loki_url = trim_slashes u1,
          loki_labels = [''job'' \<mapsto> ''haribon''] ++ labels\<rparr>)"

text \<open>
  What \<open>push\<close> and \<open>bulk\<close> post: the target, the content type and the body.
\<close>

record post =
  post_URL :: string
  post_ContentType :: string
  post_Body :: string

text \<open>
  \<open>push\<close>: the request, or nothing when no entry can be marshalled or no request can be made for the target
  (\<open>newreq\<close> is \<^verbatim>\<open>http.NewRequest\<close>). \<open>unix_nano\<close> parses a time; \<open>envelope\<close> marshals the stream with its labels
  and its pairs of time and line. The answer is discarded.
\<close>

definition LokiExporter_push :: "(LogEntry \<Rightarrow> string option) \<Rightarrow> (string \<Rightarrow> int option) \<Rightarrow> time
    \<Rightarrow> ((string \<rightharpoonup> string) \<Rightarrow> (string \<times> string) list \<Rightarrow> string option) \<Rightarrow> (string \<Rightarrow> bool) \<Rightarrow> LokiExporter \<Rightarrow> LogEntry list
    \<Rightarrow> post option" where
  "LokiExporter_push marshal unix_nano now envelope newreq x entries =
     (let vals = List.map_filter (\<lambda>e. map_option (\<lambda>line.
            (itoa (case unix_nano (le_Time e) of Some t \<Rightarrow> t | None \<Rightarrow> now), line)) (marshal e)) entries
      in if vals = [] then None
         else (case envelope (loki_labels x) vals of
                 None \<Rightarrow> None
               | Some body \<Rightarrow>
                   let target = loki_url x @ ''/loki/api/v1/push'' in
                   if \<not> newreq target then None
                   else Some \<lparr>post_URL = target, post_ContentType = ''application/json'', post_Body = body\<rparr>))"

record ElasticsearchExporter =
  ese_batch :: batch
  ese_url :: string
  ese_index :: string

definition NewElasticsearchExporter :: "string \<Rightarrow> string \<Rightarrow> ElasticsearchExporter" where
  "NewElasticsearchExporter u index =
     (let u1 = (if u = '''' then ''http://localhost:9200'' else u);
          i1 = (if index = '''' then ''haribon'' else index)
      in \<lparr>ese_batch = newBatch ''elasticsearch'', ese_url = trim_slashes u1, ese_index = i1\<rparr>)"

text \<open>\<open>bulk\<close>: \<open>action\<close> marshals the action line for an index.\<close>

definition ElasticsearchExporter_bulk :: "(LogEntry \<Rightarrow> string option) \<Rightarrow> (string \<Rightarrow> string) \<Rightarrow> (string \<Rightarrow> bool)
    \<Rightarrow> ElasticsearchExporter \<Rightarrow> LogEntry list \<Rightarrow> post option" where
  "ElasticsearchExporter_bulk marshal action newreq x entries =
     (let body = concat (map (\<lambda>doc. action (ese_index x) @ [CHR 0x0A] @ doc @ [CHR 0x0A]) (List.map_filter marshal entries));
          target = ese_url x @ ''/_bulk''
      in if length body = 0 then None
         else if \<not> newreq target then None
         else Some \<lparr>post_URL = target, post_ContentType = ''application/x-ndjson'', post_Body = body\<rparr>)"

record FluentbitExporter =
  flb_batch :: batch
  flb_addr :: string
  flb_tag :: string

definition NewFluentbitExporter :: "string \<Rightarrow> FluentbitExporter" where
  "NewFluentbitExporter a =
     (let a1 = (if a = '''' then ''localhost:24224'' else a)
      in \<lparr>flb_batch = newBatch ''fluentbit'', flb_addr = a1, flb_tag = ''haribon''\<rparr>)"

text \<open>\<open>forward\<close>: the bytes written once the connection is up; \<open>unix\<close> parses a time to seconds.\<close>

definition FluentbitExporter_forward :: "bool \<Rightarrow> (string \<Rightarrow> int option) \<Rightarrow> int \<Rightarrow> FluentbitExporter \<Rightarrow> LogEntry list
    \<Rightarrow> byte list option" where
  "FluentbitExporter_forward dialled unix now x entries =
     (if \<not> dialled then None
      else let buf = concat (map (\<lambda>e. packForwardMessage (flb_tag x)
                       (word_of_int (case unix (le_Time e) of Some t \<Rightarrow> t | None \<Rightarrow> now)) (LogEntry_Record e)) entries)
           in if buf = [] then None else Some buf)"

section \<open>Fan-out\<close>

datatype Exporter =
    ExpStdout StdoutExporter
  | ExpFile FileExporter
  | ExpLoki LokiExporter
  | ExpElastic ElasticsearchExporter
  | ExpFluentbit FluentbitExporter

definition Exporter_Name :: "Exporter \<Rightarrow> string" where
  "Exporter_Name x =
     (case x of
        ExpStdout s \<Rightarrow> ''stdout''
      | ExpFile f \<Rightarrow> ''file''
      | ExpLoki l \<Rightarrow> bt_name (loki_batch l)
      | ExpElastic l \<Rightarrow> bt_name (ese_batch l)
      | ExpFluentbit l \<Rightarrow> bt_name (flb_batch l))"

definition Exporter_Write :: "(string \<Rightarrow> string option) \<Rightarrow> (LogEntry \<Rightarrow> string option) \<Rightarrow> LogEntry \<Rightarrow> Exporter \<Rightarrow> Exporter" where
  "Exporter_Write retime marshal e x =
     (case x of
        ExpStdout s \<Rightarrow> ExpStdout (StdoutExporter_Write retime marshal e s)
      | ExpFile f \<Rightarrow> ExpFile (FileExporter_Write retime marshal e f)
      | ExpLoki l \<Rightarrow> ExpLoki (l\<lparr>loki_batch := batch_Write e (loki_batch l)\<rparr>)
      | ExpElastic l \<Rightarrow> ExpElastic (l\<lparr>ese_batch := batch_Write e (ese_batch l)\<rparr>)
      | ExpFluentbit l \<Rightarrow> ExpFluentbit (l\<lparr>flb_batch := batch_Write e (flb_batch l)\<rparr>))"

definition Exporter_Close :: "Exporter \<Rightarrow> Exporter" where
  "Exporter_Close x =
     (case x of
        ExpStdout s \<Rightarrow> ExpStdout s
      | ExpFile f \<Rightarrow> ExpFile (FileExporter_Close f)
      | ExpLoki l \<Rightarrow> ExpLoki (l\<lparr>loki_batch := batch_Close (loki_batch l)\<rparr>)
      | ExpElastic l \<Rightarrow> ExpElastic (l\<lparr>ese_batch := batch_Close (ese_batch l)\<rparr>)
      | ExpFluentbit l \<Rightarrow> ExpFluentbit (l\<lparr>flb_batch := batch_Close (flb_batch l)\<rparr>))"

definition Exporter_Dropped :: "Exporter \<Rightarrow> nat" where
  "Exporter_Dropped x =
     (case x of
        ExpStdout s \<Rightarrow> 0
      | ExpFile f \<Rightarrow> 0
      | ExpLoki l \<Rightarrow> bt_dropped (loki_batch l)
      | ExpElastic l \<Rightarrow> bt_dropped (ese_batch l)
      | ExpFluentbit l \<Rightarrow> bt_dropped (flb_batch l))"

record Multi =
  exporters :: "Exporter list"

text \<open>\<^verbatim>\<open>nil\<close> members are skipped.\<close>

definition NewMulti :: "Exporter option list \<Rightarrow> Multi" where
  "NewMulti xs = \<lparr>exporters = List.map_filter id xs\<rparr>"

definition Multi_Write :: "(string \<Rightarrow> string option) \<Rightarrow> (LogEntry \<Rightarrow> string option) \<Rightarrow> LogEntry \<Rightarrow> Multi \<Rightarrow> Multi" where
  "Multi_Write retime marshal e m = m\<lparr>exporters := map (Exporter_Write retime marshal e) (exporters m)\<rparr>"

definition Multi_Close :: "Multi \<Rightarrow> Multi" where
  "Multi_Close m = m\<lparr>exporters := map Exporter_Close (exporters m)\<rparr>"

definition Multi_Name :: "Multi \<Rightarrow> string" where
  "Multi_Name m = join ''+'' (map Exporter_Name (exporters m))"

definition Multi_Dropped :: "Multi \<Rightarrow> nat" where
  "Multi_Dropped m = sum_list (map Exporter_Dropped (exporters m))"

section \<open>Specification vocabulary\<close>

text \<open>
  The reachable states of a batch with its history: the entries its queue accepted and those it refused,
  in the order of the \<open>Write\<close> calls. Writers, \<open>Close\<close> and the goroutine interleave freely.
\<close>

inductive batch_reach :: "LogEntry list \<Rightarrow> LogEntry list \<Rightarrow> batch \<Rightarrow> bool" where
  start: "batch_reach [] [] (newBatch name)"
| accepted: "batch_reach acc rej b \<Longrightarrow> length (bt_queue b) < defaultQueueDepth
    \<Longrightarrow> batch_reach (acc @ [e]) rej (batch_Write e b)"
| refused: "batch_reach acc rej b \<Longrightarrow> \<not> length (bt_queue b) < defaultQueueDepth
    \<Longrightarrow> batch_reach acc (rej @ [e]) (batch_Write e b)"
| close: "batch_reach acc rej b \<Longrightarrow> batch_reach acc rej (batch_Close b)"
| run: "batch_reach acc rej b \<Longrightarrow> batch_run b b' \<Longrightarrow> batch_reach acc rej b'"

definition in_flight :: "batch \<Rightarrow> LogEntry list" where
  "in_flight b = concat (bt_sent b) @ bt_buf b @ bt_queue b"

definition batch_ok :: "batch \<Rightarrow> bool" where
  "batch_ok b =
     (length (bt_queue b) \<le> defaultQueueDepth \<and> length (bt_buf b) < defaultMaxBatch
      \<and> list_all (\<lambda>s. s \<noteq> [] \<and> length s \<le> defaultMaxBatch) (bt_sent b)
      \<and> (bt_phase b = Returned \<longrightarrow> bt_buf b = []))"

section \<open>Lemmas\<close>

lemma batch_limits: "0 < defaultMaxBatch" "0 < defaultQueueDepth"
  by (simp_all add: defaultMaxBatch_def defaultQueueDepth_def)

lemma batch_flush_facts:
  "in_flight (batch_flush b) = in_flight b" "bt_buf (batch_flush b) = []"
  "bt_queue (batch_flush b) = bt_queue b" "bt_dropped (batch_flush b) = bt_dropped b"
  "bt_phase (batch_flush b) = bt_phase b" "bt_done (batch_flush b) = bt_done b"
  "concat (bt_sent (batch_flush b)) = concat (bt_sent b) @ bt_buf b"
  by (simp_all add: batch_flush_def in_flight_def)

lemma batch_flush_ok:
  assumes "length (bt_buf b) \<le> defaultMaxBatch" "length (bt_queue b) \<le> defaultQueueDepth"
    and "list_all (\<lambda>s. s \<noteq> [] \<and> length s \<le> defaultMaxBatch) (bt_sent b)"
  shows "batch_ok (batch_flush b)"
  using assms batch_limits by (simp add: batch_ok_def batch_flush_def)

lemma batch_receive_facts:
  assumes "bt_queue b \<noteq> []"
  shows "in_flight (batch_receive b) = in_flight b" "bt_dropped (batch_receive b) = bt_dropped b"
    "bt_phase (batch_receive b) = bt_phase b" "bt_done (batch_receive b) = bt_done b"
    "bt_queue (batch_receive b) = tl (bt_queue b)"
  using assms by (auto simp: batch_receive_def Let_def batch_flush_facts neq_Nil_conv in_flight_def
      batch_flush_def split: if_splits)

lemma batch_receive_ok:
  assumes "batch_ok b" "bt_queue b \<noteq> []" "bt_phase b \<noteq> Returned"
  shows "batch_ok (batch_receive b)"
proof -
  obtain e q where q: "bt_queue b = e # q" using assms(2) by (cases "bt_queue b") auto
  let ?b = "b\<lparr>bt_queue := q, bt_buf := bt_buf b @ [e]\<rparr>"
  have f: "batch_ok (batch_flush ?b)"
    using assms(1) q by (intro batch_flush_ok) (auto simp: batch_ok_def)
  show ?thesis
    using assms f by (auto simp: batch_receive_def q Let_def) (auto simp: batch_ok_def q)
qed

lemma batch_run_keeps:
  assumes "batch_run b b'" "batch_ok b"
  shows "in_flight b' = in_flight b \<and> bt_dropped b' = bt_dropped b \<and> batch_ok b'"
  using assms
proof (induction rule: batch_run.induct)
  case (receive b)
  then show ?case using batch_receive_facts batch_receive_ok by fastforce
next
  case (tick b)
  then show ?case using batch_flush_ok [of b] by (simp add: batch_flush_facts batch_ok_def)
next
  case (see_done b)
  then show ?case by (simp add: in_flight_def batch_ok_def)
next
  case (drain b)
  then show ?case using batch_receive_facts batch_receive_ok by fastforce
next
  case (drained b)
  then have "batch_ok (batch_flush b)" by (intro batch_flush_ok) (simp_all add: batch_ok_def)
  then show ?case
    using batch_flush_facts [of b] by (simp add: in_flight_def batch_ok_def)
qed

lemma batch_reach_ok:
  "batch_reach acc rej b \<Longrightarrow> in_flight b = acc \<and> bt_dropped b = length rej \<and> batch_ok b"
proof (induction rule: batch_reach.induct)
  case (start name)
  then show ?case by (simp add: newBatch_def in_flight_def batch_ok_def batch_limits)
next
  case (accepted acc rej b e)
  then show ?case by (auto simp: batch_Write_def in_flight_def batch_ok_def)
next
  case (refused acc rej b e)
  then show ?case by (auto simp: batch_Write_def in_flight_def batch_ok_def)
next
  case (close acc rej b)
  then show ?case by (simp add: batch_Close_def in_flight_def batch_ok_def)
next
  case (run acc rej b b')
  then show ?case using batch_run_keeps [of b b'] by simp
qed

lemma drain_all:
  "bt_phase b = Draining \<Longrightarrow> batch_ok b \<Longrightarrow>
     \<exists>b'. batch_run\<^sup>*\<^sup>* b b' \<and> bt_phase b' = Returned \<and> bt_queue b' = [] \<and> concat (bt_sent b') = in_flight b"
proof (induction "bt_queue b" arbitrary: b)
  case Nil
  let ?b = "(batch_flush b)\<lparr>bt_phase := Returned\<rparr>"
  have "batch_run b ?b" using Nil by (intro drained) simp_all
  moreover have "concat (bt_sent ?b) = in_flight b" using Nil by (simp add: batch_flush_facts in_flight_def)
  ultimately show ?case using Nil by (intro exI [of _ ?b]) (simp add: batch_flush_facts r_into_rtranclp)
next
  case (Cons e q)
  then have ne: "bt_queue b \<noteq> []" by auto
  have step: "batch_run b (batch_receive b)" using Cons ne by (intro drain) simp_all
  have "q = bt_queue (batch_receive b)" using Cons(2) batch_receive_facts [OF ne] by (metis list.sel(3))
  from Cons(1) [OF this] obtain b' where "batch_run\<^sup>*\<^sup>* (batch_receive b) b'" "bt_phase b' = Returned"
    "bt_queue b' = []" "concat (bt_sent b') = in_flight (batch_receive b)"
    using Cons.prems ne batch_receive_facts [OF ne] batch_receive_ok [OF Cons.prems(2) ne] by auto
  then show ?case using step batch_receive_facts [OF ne] by (metis converse_rtranclp_into_rtranclp)
qed

section \<open>Properties\<close>

text \<open>
  C12: the queue of a remote exporter loses nothing it accepted and reorders nothing. In every reachable
  state, under any interleaving of writers, \<open>Close\<close> and the goroutine, the batches sent, the buffer and
  the queue together are exactly the accepted entries in the order they were written; every refused entry
  is counted; no batch is empty or larger than 256 entries, the queue never exceeds 4096, and the buffer
  is empty once the goroutine has returned.
\<close>

theorem batch_conserves_entries:
  assumes "batch_reach acc rej b"
  shows "concat (bt_sent b) @ bt_buf b @ bt_queue b = acc \<and> bt_dropped b = length rej
       \<and> list_all (\<lambda>s. s \<noteq> [] \<and> length s \<le> 256) (bt_sent b) \<and> length (bt_queue b) \<le> 4096
       \<and> (bt_phase b = Returned \<longrightarrow> bt_buf b = [])"
  using batch_reach_ok [OF assms]
  by (simp add: in_flight_def batch_ok_def defaultMaxBatch_def defaultQueueDepth_def)

definition demo_entry :: "string \<Rightarrow> LogEntry" where
  "demo_entry m = \<lparr>le_Time = '''', le_Method = m, le_Path = ''/'', le_Backend = '''', le_Status = 200,
     le_DurationMS = 1, le_Retries = 0, le_Level = ''info''\<rparr>"

theorem batch_conserves_entries_witness:
  "concat (bt_sent (batch_flush (batch_receive (batch_Write (demo_entry ''GET'') (newBatch ''loki'')))))
   = [demo_entry ''GET'']"
proof -
  let ?b = "batch_Write (demo_entry ''GET'') (newBatch ''loki'')"
  have s: "batch_reach ([] @ [demo_entry ''GET'']) [] ?b"
    by (intro accepted start) (simp add: newBatch_def batch_limits)
  have l: "bt_phase ?b = Looping" "bt_queue ?b = [demo_entry ''GET'']"
    by (simp_all add: batch_Write_def newBatch_def defaultQueueDepth_def)
  then have r: "batch_reach [demo_entry ''GET''] [] (batch_receive ?b)"
    using run [OF s receive] by simp
  have p: "bt_phase (batch_receive ?b) = Looping" using batch_receive_facts [of ?b] l by simp
  have "batch_reach [demo_entry ''GET''] [] (batch_flush (batch_receive ?b))"
    using run [OF r tick [OF p]] .
  from batch_conserves_entries [OF this] show ?thesis
    using l batch_receive_facts [of ?b] by (simp add: batch_flush_facts)
qed

text \<open>
  C13: \<open>Close\<close> flushes everything. From every reachable state in which \<open>Close\<close> has been called and the
  goroutine has not returned, the goroutine can go on to return, and once it returns without further
  writes every accepted entry has been sent, in order, in the batches passed to \<open>send\<close>.
\<close>

theorem batch_close_flushes:
  assumes "batch_reach acc rej b" "bt_done b" "bt_phase b \<noteq> Returned"
  shows "\<exists>b'. batch_run\<^sup>*\<^sup>* b b' \<and> bt_phase b' = Returned \<and> bt_queue b' = [] \<and> concat (bt_sent b') = acc"
proof (cases "bt_phase b")
  case Looping
  let ?b = "b\<lparr>bt_phase := Draining\<rparr>"
  have step: "batch_run b ?b" using Looping assms(2) by (rule see_done)
  then have "in_flight ?b = acc \<and> batch_ok ?b" using batch_run_keeps batch_reach_ok [OF assms(1)] by blast
  with drain_all [of ?b] obtain b' where "batch_run\<^sup>*\<^sup>* ?b b'" "bt_phase b' = Returned" "bt_queue b' = []"
    "concat (bt_sent b') = acc" by auto
  then show ?thesis using step by (metis converse_rtranclp_into_rtranclp)
next
  case Draining
  then show ?thesis using drain_all [of b] batch_reach_ok [OF assms(1)] by auto
qed (use assms in simp)

theorem batch_close_flushes_witness:
  "\<exists>b'. batch_run\<^sup>*\<^sup>* (batch_Close (batch_Write (demo_entry ''GET'') (newBatch ''loki''))) b'
     \<and> bt_phase b' = Returned \<and> bt_queue b' = [] \<and> concat (bt_sent b') = [demo_entry ''GET'']"
proof -
  let ?b = "batch_Close (batch_Write (demo_entry ''GET'') (newBatch ''loki''))"
  have "batch_reach ([] @ [demo_entry ''GET'']) [] ?b"
    by (intro close accepted start) (simp add: newBatch_def batch_limits)
  moreover have "bt_done ?b" "bt_phase ?b \<noteq> Returned"
    by (simp_all add: batch_Close_def batch_Write_def newBatch_def defaultQueueDepth_def)
  ultimately show ?thesis using batch_close_flushes by fastforce
qed






section \<open>What the remote sinks receive\<close>

text \<open>A reader of a forward stream that expects a number of messages and then the end.\<close>

fun unpack_stream :: "nat \<Rightarrow> nat \<Rightarrow> byte list \<Rightarrow> mval list option" where
  "unpack_stream f 0 bs = (if bs = [] then Some [] else None)"
| "unpack_stream f (Suc k) bs =
     (case unpack f bs of None \<Rightarrow> None | Some (v, rest) \<Rightarrow> map_option ((#) v) (unpack_stream f k rest))"

definition entry_packable :: "LogEntry \<Rightarrow> bool" where
  "entry_packable e = list_all (\<lambda>s. length s < 2 ^ 32) [le_Time e, le_Method e, le_Path e, le_Backend e, le_Level e]"

definition forward_value :: "string \<Rightarrow> u64 \<Rightarrow> LogEntry \<Rightarrow> mval" where
  "forward_value tag t e = VArray [VString tag, VInt t, VMap (LogEntry_Record e)]"

lemma packForward_value: "packForwardMessage tag t (LogEntry_Record e) = packValue (forward_value tag t e)"
  by (simp add: packForwardMessage_def forward_value_def numeral_3_eq_3)

lemma forward_value_packable: "length tag < 2 ^ 32 \<Longrightarrow> entry_packable e \<Longrightarrow> packable (forward_value tag t e)"
  by (simp add: forward_value_def LogEntry_Record_def entry_packable_def)

lemma forward_value_fuel: "fuel_for (forward_value tag t e) \<le> 32"
  by (simp add: forward_value_def LogEntry_Record_def)

lemma forward_value_nonempty: "packValue (forward_value tag t e) \<noteq> []"
  by (simp add: forward_value_def packArrayHeader_def)

lemma unpack_stream_values:
  "list_all (\<lambda>v. packable v \<and> fuel_for v \<le> f) vs \<Longrightarrow> unpack_stream f (length vs) (concat (map packValue vs)) = Some (map wire vs)"
  by (induction vs) (simp_all add: unpack_packValue)

text \<open>
  A batch can be read back by Fluent Bit. The bytes \<open>forward\<close> writes are one message per entry, in the order of
  the entries and with nothing after them; each carries the tag, the time of the entry and its record.
\<close>

theorem forward_batch_decodes:
  fixes entries unix now a
  assumes "list_all entry_packable entries" "entries \<noteq> []"
  defines "x \<equiv> NewFluentbitExporter a"
  defines "at \<equiv> (\<lambda>e. word_of_int (case unix (le_Time e) of Some t \<Rightarrow> t | None \<Rightarrow> now) :: u64)"
  shows "\<exists>bytes. FluentbitExporter_forward True unix now x entries = Some bytes
     \<and> unpack_stream 32 (length entries) bytes
       = Some (map (\<lambda>e. VArray [VString ''haribon'', wire (VInt (at e)), wire (VMap (LogEntry_Record e))]) entries)"
proof -
  let ?vs = "map (\<lambda>e. forward_value ''haribon'' (at e) e) entries"
  have "list_all (\<lambda>v. packable v \<and> fuel_for v \<le> 32) ?vs"
    using assms(1) forward_value_packable forward_value_fuel by (auto simp: list_all_iff)
  then have u: "unpack_stream 32 (length entries) (concat (map packValue ?vs)) = Some (map wire ?vs)"
    using unpack_stream_values [of 32 ?vs] by simp
  have "concat (map packValue ?vs) \<noteq> []" using assms(2) forward_value_nonempty by (cases entries) auto
  then have "FluentbitExporter_forward True unix now x entries = Some (concat (map packValue ?vs))"
    by (simp add: FluentbitExporter_forward_def x_def NewFluentbitExporter_def Let_def packForward_value at_def comp_def)
  with u show ?thesis by (simp add: forward_value_def comp_def)
qed

theorem forward_batch_decodes_witness:
  "\<exists>bytes. FluentbitExporter_forward True (\<lambda>s. None) 9 (NewFluentbitExporter '''')
       [\<lparr>le_Time = ''t'', le_Method = ''GET'', le_Path = ''/'', le_Backend = '''', le_Status = 200, le_DurationMS = 3,
         le_Retries = 0, le_Level = ''info''\<rparr>] = Some bytes"
  using forward_batch_decodes [of "[\<lparr>le_Time = ''t'', le_Method = ''GET'', le_Path = ''/'', le_Backend = '''', le_Status = 200,
      le_DurationMS = 3, le_Retries = 0, le_Level = ''info''\<rparr>]" "\<lambda>s. None" 9 "''''"]
  by (auto simp: entry_packable_def)

text \<open>
  The bulk body is newline-delimited JSON: with documents and an action line that have no line break of their own, its lines are
  the action line and the document of every entry that can be marshalled, in order, and the body ends with a line break.
\<close>

lemma bulk_lines:
  assumes "CHR 0x0A \<notin> set act" "list_all (\<lambda>d. CHR 0x0A \<notin> set d) docs"
  shows "split_on (CHR 0x0A) (concat (map (\<lambda>doc. act @ [CHR 0x0A] @ doc @ [CHR 0x0A]) docs))
       = concat (map (\<lambda>doc. [act, doc]) docs) @ [[]]"
  using assms(2) assms(1) by (induction docs) (simp_all add: split_on_append)

theorem bulk_body_lines:
  assumes "ElasticsearchExporter_bulk marshal action newreq x entries = Some p"
    and "CHR 0x0A \<notin> set (action (ese_index x))"
    and "\<And>e d. marshal e = Some d \<Longrightarrow> CHR 0x0A \<notin> set d"
  shows "post_URL p = ese_url x @ ''/_bulk''
     \<and> split_on (CHR 0x0A) (post_Body p)
       = concat (map (\<lambda>doc. [action (ese_index x), doc]) (List.map_filter marshal entries)) @ [[]]"
proof -
  have "list_all (\<lambda>d. CHR 0x0A \<notin> set d) (List.map_filter marshal entries)"
    using assms(3) by (auto simp: list_all_iff map_filter_def)
  from bulk_lines [OF assms(2) this] assms(1) show ?thesis
    by (auto simp: ElasticsearchExporter_bulk_def Let_def split: if_splits)
qed

end
