(* ===== verification/Engine.thy ===== *)
theory Engine
  imports Breaker Cluster HealthProbe Proxy Discover Logging
begin

text \<open>
  The swappable runtime of \<^verbatim>\<open>cli/engine.go\<close> and the process-wide state of \<^verbatim>\<open>cli/main.go\<close> it writes to.
  One record \<open>world\<close> holds everything the goroutines share: the published generation (\<open>sw.cur\<close>), the latest
  discovery result, the gossip node, the metrics registry, the configuration snapshot, the running health
  scheduler with the local variables of its probe goroutines, the probe goroutines of stopped schedulers, the
  configurations that callbacks have loaded and not yet applied, the global pool and health map, and the log
  lines written.

  Stopping a scheduler cancels a context; it does not wait for its goroutines. A probe that is waiting for an
  answer at that moment still finishes its tick, so its goroutine stays in \<open>rt_late\<close>. The callbacks load the
  configuration before they take the lock of \<open>rebuild\<close>, so between the two others may run: \<open>rt_loaded\<close>.

  \<^verbatim>\<open>rand.Intn\<close> draws from \<open>rnd\<close>, any function of the clock.
\<close>

section \<open>The shared state\<close>

record engine =
  e_bal :: Balancer
  e_breaker :: "Registry option"
  e_backends :: "url list"

record world =
  rt_sw :: "engine option"
  rt_discovered :: "url list"
  rt_node :: "Node option"
  rt_reg :: "MRegistry option"
  rt_snapshot :: Snapshot
  rt_sched :: "(Scheduler \<times> (url \<Rightarrow> probe_state)) option"
  rt_late :: "(SchedulerConfig \<times> url \<times> probe_state) list"
  rt_loaded :: "Config list"
  g_backends :: "url list"
  g_health :: "url \<rightharpoonup> bool"
  g_log :: "LogEntry list"

definition newRuntime :: "Snapshot \<Rightarrow> MRegistry option \<Rightarrow> Node option \<Rightarrow> world" where
  "newRuntime snapshot reg node =
     \<lparr>rt_sw = None, rt_discovered = [], rt_node = node, rt_reg = reg, rt_snapshot = snapshot, rt_sched = None,
      rt_late = [], rt_loaded = [], g_backends = [], g_health = Map.empty, g_log = []\<rparr>"

section \<open>Process-wide helpers\<close>

definition setBackends :: "url list \<Rightarrow> world \<Rightarrow> world" where
  "setBackends urls w = w\<lparr>g_backends := urls\<rparr>"

definition getBackends :: "world \<Rightarrow> url list" where
  "getBackends w = g_backends w"

definition setHealth :: "url \<Rightarrow> bool \<Rightarrow> world \<Rightarrow> world" where
  "setHealth b status w = w\<lparr>g_health := (g_health w)(b \<mapsto> status)\<rparr>"

definition isHealthy :: "world \<Rightarrow> url \<Rightarrow> bool" where
  "isHealthy w b = (case g_health w b of None \<Rightarrow> True | Some v \<Rightarrow> v)"

definition pruneHealth :: "url list \<Rightarrow> world \<Rightarrow> world" where
  "pruneHealth keep w = w\<lparr>g_health := (\<lambda>u. if u \<in> set keep then g_health w u else None)\<rparr>"

definition emit_log :: "LogEntry \<Rightarrow> world \<Rightarrow> world" where
  "emit_log e w = w\<lparr>g_log := g_log w @ [e]\<rparr>"

definition upd_reg :: "(MRegistry \<Rightarrow> MRegistry) \<Rightarrow> world \<Rightarrow> world" where
  "upd_reg f w = w\<lparr>rt_reg := map_option f (rt_reg w)\<rparr>"

definition makeHealthLogger :: "url \<Rightarrow> string \<Rightarrow> world \<Rightarrow> world" where
  "makeHealthLogger b st w =
     (let level = (if st = ''unhealthy'' then ''warn'' else ''info'');
          w1 = emit_log \<lparr>le_Time = '''', le_Method = ''PROBE'', le_Path = ''health-check'', le_Backend = b,
                 le_Status = 0, le_DurationMS = 0, le_Retries = 0, le_Level = level\<rparr> w;
          v = (if st = ''unhealthy'' then 0 else 1)
      in upd_reg (MRegistry_Gauge (MetricName ''haribon_backend_healthy'' ''backend'' b) (Gauge_Set v)) w1)"

definition makeProxyLogger :: "proxy_LogEntry \<Rightarrow> world \<Rightarrow> world" where
  "makeProxyLogger e w =
     (let w1 = emit_log \<lparr>le_Time = '''', le_Method = pl_Method e, le_Path = pl_Path e, le_Backend = pl_Backend e,
                 le_Status = pl_Status e, le_DurationMS = pl_DurationMS e, le_Retries = pl_Retries e,
                 le_Level = pl_Level e\<rparr> w;
          w2 = (if 200 \<le> pl_Status e \<and> pl_Status e < 300
                then upd_reg (MRegistry_Counter (MetricName ''haribon_requests_total'' ''backend'' (pl_Backend e)) Counter_Inc) w1
                else w1);
          w3 = upd_reg (MRegistry_Gauge (MetricName ''haribon_last_duration_ms'' ''backend'' (pl_Backend e))
                 (Gauge_Set (pl_DurationMS e))) w2
      in if pl_Retries e > 0
         then upd_reg (MRegistry_Counter (MetricName ''haribon_retries_total'' ''backend'' (pl_Backend e))
                (Counter_Add (pl_Retries e))) w3
         else w3)"

section \<open>The swappable engine\<close>

definition breakerLog :: "log_call \<Rightarrow> world \<Rightarrow> world" where
  "breakerLog c w =
     (case c of (b, st, reason) \<Rightarrow>
        let w1 = emit_log \<lparr>le_Time = '''', le_Method = ''BREAKER'', le_Path = ''circuit-breaker'', le_Backend = b,
                   le_Status = 0, le_DurationMS = 0, le_Retries = 0, le_Level = ''warn''\<rparr> w;
            v = (if st = ''open'' then 1 else if st = ''half_open'' then 2 else 0)
        in upd_reg (MRegistry_Gauge (MetricName ''haribon_breaker_state'' ''backend'' b) (Gauge_Set v)) w1)"

definition set_breaker :: "Registry \<Rightarrow> world \<Rightarrow> world" where
  "set_breaker r w = w\<lparr>rt_sw := map_option (\<lambda>e. e\<lparr>e_breaker := Some r\<rparr>) (rt_sw w)\<rparr>"

definition set_bal :: "Balancer \<Rightarrow> world \<Rightarrow> world" where
  "set_bal b w = w\<lparr>rt_sw := map_option (\<lambda>e. e\<lparr>e_bal := b\<rparr>) (rt_sw w)\<rparr>"

definition cur_breaker :: "world \<Rightarrow> Registry option" where
  "cur_breaker w = (case rt_sw w of None \<Rightarrow> None | Some e \<Rightarrow> e_breaker e)"

text \<open>The engine's checker holds the breaker of its generation and the node of the runtime.\<close>

definition engineHealthChecker_IsAvailable :: "time \<Rightarrow> world \<Rightarrow> url \<Rightarrow> bool \<times> world" where
  "engineHealthChecker_IsAvailable now w b =
     (let local = isHealthy w b in
      if \<not> local then (False, w)
      else if (case rt_node w of Some n \<Rightarrow> \<not> Node_GetHealth now n b local | None \<Rightarrow> False) then (False, w)
      else (case cur_breaker w of
              Some r \<Rightarrow>
                (case Registry_IsAvailable now r b of (ok, r', calls) \<Rightarrow>
                   (ok, fold breakerLog calls (set_breaker r' w)))
            | None \<Rightarrow> (True, w)))"

definition rand_Intn :: "nat \<Rightarrow> nat \<Rightarrow> nat" where
  "rand_Intn k n = k mod n"

definition swappable_Next :: "(time \<Rightarrow> nat) \<Rightarrow> time \<Rightarrow> world \<Rightarrow> (bal_error, url) go \<times> world" where
  "swappable_Next rnd now w =
     (case rt_sw w of
        None \<Rightarrow> (Fail ErrNoHealthyBackend, w)
      | Some e \<Rightarrow>
          (case Balancer_Next (rand_Intn (rnd now)) (engineHealthChecker_IsAvailable now) (e_bal e) w of
             (res, b', w') \<Rightarrow> (res, set_bal b' w')))"

definition swappable_NextForIP :: "(time \<Rightarrow> nat) \<Rightarrow> time \<Rightarrow> string \<Rightarrow> world \<Rightarrow> (bal_error, url) go \<times> world" where
  "swappable_NextForIP rnd now clientIP w =
     (case rt_sw w of
        None \<Rightarrow> (Fail ErrNoHealthyBackend, w)
      | Some e \<Rightarrow>
          (case e_bal e of
             IPHash i \<Rightarrow> ipHash_NextForIP (engineHealthChecker_IsAvailable now) i clientIP w
           | _ \<Rightarrow>
             (case Balancer_Next (rand_Intn (rnd now)) (engineHealthChecker_IsAvailable now) (e_bal e) w of
                (res, b', w') \<Rightarrow> (res, set_bal b' w'))))"

definition swappable_Done :: "url \<Rightarrow> world \<Rightarrow> world" where
  "swappable_Done b w = (case rt_sw w of None \<Rightarrow> w | Some e \<Rightarrow> set_bal (Balancer_Done b (e_bal e)) w)"

definition swappable_Backends :: "world \<Rightarrow> url list" where
  "swappable_Backends w = (case rt_sw w of None \<Rightarrow> [] | Some e \<Rightarrow> e_backends e)"

definition swappable_IsAvailable :: "time \<Rightarrow> world \<Rightarrow> url \<Rightarrow> bool \<times> world" where
  "swappable_IsAvailable now w b =
     (case rt_sw w of None \<Rightarrow> (False, w) | Some e \<Rightarrow> engineHealthChecker_IsAvailable now w b)"

definition swappable_RecordSuccess :: "url \<Rightarrow> world \<Rightarrow> world" where
  "swappable_RecordSuccess b w =
     (case cur_breaker w of
        None \<Rightarrow> w
      | Some r \<Rightarrow> (case Registry_RecordSuccess r b of (r', calls) \<Rightarrow> fold breakerLog calls (set_breaker r' w)))"

definition swappable_RecordFailure :: "time \<Rightarrow> url \<Rightarrow> world \<Rightarrow> world" where
  "swappable_RecordFailure now b w =
     (case cur_breaker w of
        None \<Rightarrow> w
      | Some r \<Rightarrow> (case Registry_RecordFailure now r b of (r', calls) \<Rightarrow> fold breakerLog calls (set_breaker r' w)))"

fun ask_until :: "time \<Rightarrow> url list \<Rightarrow> world \<Rightarrow> bool \<times> world" where
  "ask_until now [] w = (False, w)"
| "ask_until now (b # bs) w =
     (case engineHealthChecker_IsAvailable now w b of
        (True, w') \<Rightarrow> (True, w')
      | (False, w') \<Rightarrow> ask_until now bs w')"

definition swappable_HasHealthyBackend :: "time \<Rightarrow> world \<Rightarrow> bool \<times> world" where
  "swappable_HasHealthyBackend now w =
     (case rt_sw w of
        None \<Rightarrow> (False, w)
      | Some e \<Rightarrow> if length (e_backends e) = 0 then (False, w) else ask_until now (e_backends e) w)"

section \<open>Rebuilding\<close>

fun merge_config :: "Backend list \<Rightarrow> url set \<Rightarrow> BackendEntry list \<Rightarrow> url set \<times> BackendEntry list" where
  "merge_config [] known acc = (known, acc)"
| "merge_config (b # bs) known acc =
     (if Host b = '''' \<or> Host b \<in> known then merge_config bs known acc
      else merge_config bs (insert (Host b) known) (acc @ [\<lparr>URL = Host b, Weight = bk_Weight b\<rparr>]))"

fun merge_discovered :: "url list \<Rightarrow> url set \<Rightarrow> BackendEntry list \<Rightarrow> BackendEntry list" where
  "merge_discovered [] known acc = acc"
| "merge_discovered (u # us) known acc =
     (if u = '''' \<or> u \<in> known then merge_discovered us known acc
      else merge_discovered us (insert u known) (acc @ [\<lparr>URL = u, Weight = 1\<rparr>]))"

definition mergeEntries :: "Backend list \<Rightarrow> url list \<Rightarrow> BackendEntry list" where
  "mergeEntries cfgBackends disc =
     (case merge_config cfgBackends {} [] of (known, acc) \<Rightarrow> merge_discovered disc known acc)"

text \<open>The cancelled probes keep their local variables until they return.\<close>

definition stopScheduler :: "world \<Rightarrow> world" where
  "stopScheduler w =
     (case rt_sched w of
        None \<Rightarrow> w
      | Some (s, probes) \<Rightarrow>
          w\<lparr>rt_sched := None, rt_late := rt_late w @ map (\<lambda>b. (sched_cfg s, b, probes b)) (sched_backends s)\<rparr>)"

definition scheduler_config :: "HealthConfig \<Rightarrow> SchedulerConfig" where
  "scheduler_config hc =
     \<lparr>IntervalSec = hc_IntervalSec hc, TimeoutSec = hc_TimeoutSec hc, Path = hc_Path hc,
      HealthyThreshold = hc_HealthyThreshold hc, UnhealthyThreshold = hc_UnhealthyThreshold hc\<rparr>"

definition startScheduler :: "Config \<Rightarrow> url list \<Rightarrow> world \<Rightarrow> world" where
  "startScheduler cfg urls w =
     (if \<not> hc_Enabled (cHealth cfg) then w
      else w\<lparr>rt_sched := Some (NewScheduler urls (scheduler_config (cHealth cfg)) None, \<lambda>u. probe_init)\<rparr>)"

text \<open>The two gauges of every backend, in the order of the pool.\<close>

fun seed_gauges :: "url list \<Rightarrow> world \<Rightarrow> world" where
  "seed_gauges [] w = w"
| "seed_gauges (u # us) w =
     seed_gauges us
       (upd_reg (MRegistry_Gauge (MetricName ''haribon_breaker_state'' ''backend'' u) (Gauge_Set 0))
         (upd_reg (MRegistry_Gauge (MetricName ''haribon_backend_healthy'' ''backend'' u) (Gauge_Set 1)) w))"

definition rebuild :: "Config \<Rightarrow> world \<Rightarrow> world" where
  "rebuild cfg w =
     (let entries = mergeEntries (cBackends cfg) (rt_discovered w) in
      if entries = [] then w
      else
        let urls = map URL entries in
        (case New_Balancer (Strategy (cBalancer cfg)) entries of
           Ok bal \<Rightarrow>
             let bal1 = (case rt_sw w of None \<Rightarrow> bal | Some prev \<Rightarrow> ConnsCarrier_CarryOverConns bal (e_bal prev));
                 brk = NewRegistry urls (bc_FailureThreshold (cBreaker cfg)) (seconds (bc_CooldownSec (cBreaker cfg))) True;
                 brk1 = (case rt_sw w of None \<Rightarrow> brk | Some prev \<Rightarrow> Registry_CarryOver brk (e_breaker prev));
                 w1 = seed_gauges urls w;
                 w2 = stopScheduler w1;
                 w3 = w2\<lparr>rt_sw := Some \<lparr>e_bal = bal1, e_breaker = Some brk1, e_backends = urls\<rparr>\<rparr>;
                 w4 = setBackends urls w3;
                 w5 = pruneHealth urls w4
             in startScheduler cfg urls w5
         | _ \<Rightarrow> w))"

definition OnConfigReload :: "Config \<Rightarrow> world \<Rightarrow> world" where
  "OnConfigReload cfg w = rebuild cfg w"

definition OnDiscovery :: "url list \<Rightarrow> world \<Rightarrow> world" where
  "OnDiscovery urls w =
     (if SameList urls (rt_discovered w) then w
      else let w1 = w\<lparr>rt_discovered := urls\<rparr> in rebuild (Snapshot_Load (rt_snapshot w1)) w1)"

text \<open>
  The same callbacks in the steps they take when others run in between: a discovery result is noted under the
  lock, a reload stores the new snapshot, both then load the snapshot, and finally \<open>rebuild\<close> runs on what was
  loaded, under the lock again.
\<close>

definition discovery_noted :: "url list \<Rightarrow> world \<Rightarrow> world" where
  "discovery_noted urls w = (if SameList urls (rt_discovered w) then w else w\<lparr>rt_discovered := urls\<rparr>)"

definition snapshot_stored :: "machine \<Rightarrow> string \<Rightarrow> world \<Rightarrow> world" where
  "snapshot_stored m path w = w\<lparr>rt_snapshot := snd (Snapshot_Reload m path (rt_snapshot w))\<rparr>"

definition config_loaded :: "world \<Rightarrow> world" where
  "config_loaded w = w\<lparr>rt_loaded := rt_loaded w @ [Snapshot_Load (rt_snapshot w)]\<rparr>"

definition loaded_rebuild :: "nat \<Rightarrow> world \<Rightarrow> world" where
  "loaded_rebuild i w =
     (if i < length (rt_loaded w)
      then rebuild (rt_loaded w ! i) (w\<lparr>rt_loaded := take i (rt_loaded w) @ drop (Suc i) (rt_loaded w)\<rparr>)
      else w)"

text \<open>The synchronous first lookup of \<open>StartDiscovery\<close>; the watch loop then calls \<open>OnDiscovery\<close>.\<close>

definition StartDiscovery :: "sources \<Rightarrow> Provider \<Rightarrow> world \<Rightarrow> world" where
  "StartDiscovery src p w =
     (case fst (Provider_Discover src p) of
        Ok urls \<Rightarrow> if length urls > 0 then w\<lparr>rt_discovered := urls\<rparr> else w
      | _ \<Rightarrow> w)"

section \<open>Probes, gossip and cluster metrics\<close>

definition stateWriter :: "url \<Rightarrow> bool \<Rightarrow> world \<Rightarrow> world" where
  "stateWriter b healthy w =
     (let w1 = setHealth b healthy w
      in w1\<lparr>rt_node := map_option (Node_SetHealth b healthy) (rt_node w1)\<rparr>)"

fun apply_effect :: "probe_effect \<Rightarrow> world \<Rightarrow> world" where
  "apply_effect (WriteState b v) w = stateWriter b v w"
| "apply_effect (LogState b st reason) w = makeHealthLogger b st w"

text \<open>One tick of the probe goroutine of backend \<open>b\<close>, with the answer to its request.\<close>

definition probe_backend :: "url \<Rightarrow> int option \<Rightarrow> world \<Rightarrow> world" where
  "probe_backend b reply w =
     (case rt_sched w of
        None \<Rightarrow> w
      | Some (s, probes) \<Rightarrow>
          if b \<notin> set (sched_backends s) then w
          else
            let ok = Scheduler_check (\<lambda>target. reply) b (probe_path (sched_cfg s)) in
            (case probe_tick (sched_cfg s) b ok (probes b) of (st', effs) \<Rightarrow>
               fold apply_effect effs (w\<lparr>rt_sched := Some (s, probes(b := st'))\<rparr>)))"

text \<open>
  One more tick of the \<open>i\<close>-th goroutine of a stopped scheduler: the one it was waiting in, or a further one, as
  \<^verbatim>\<open>select\<close> may take the ticker although the context is done.
\<close>

definition late_probe :: "nat \<Rightarrow> int option \<Rightarrow> world \<Rightarrow> world" where
  "late_probe i reply w =
     (if i < length (rt_late w) then
        (case rt_late w ! i of (cfg, b, st) \<Rightarrow>
           let ok = Scheduler_check (\<lambda>target. reply) b (probe_path cfg) in
           (case probe_tick cfg b ok st of (st', effs) \<Rightarrow>
              fold apply_effect effs (w\<lparr>rt_late := (rt_late w)[i := (cfg, b, st')]\<rparr>)))
      else w)"

text \<open>A received gossip message, and the expiry the gossip loop runs.\<close>

definition receive_gossip :: "time \<Rightarrow> GossipMessage \<Rightarrow> world \<Rightarrow> world" where
  "receive_gossip now msg w = w\<lparr>rt_node := map_option (Node_MergeGossip now msg) (rt_node w)\<rparr>"

text \<open>One round of the gossip loop: expiry, then a message to every peer that can be dialled.\<close>

definition gossip_round :: "(string \<Rightarrow> bool) \<Rightarrow> time \<Rightarrow> world \<Rightarrow> world" where
  "gossip_round dial now w =
     w\<lparr>rt_node := map_option (\<lambda>n. fst (Node_sendGossip dial (Node_expireRemote now n))) (rt_node w)\<rparr>"

definition cluster_metrics_tick :: "time \<Rightarrow> world \<Rightarrow> world" where
  "cluster_metrics_tick now w =
     (case rt_node w of
        None \<Rightarrow> w
      | Some n \<Rightarrow>
          upd_reg (MRegistry_Counter ''haribon_config_hash_mismatch_total'' (Counter_Set (Node_ConfigMismatches n)))
            (upd_reg (MRegistry_Gauge ''haribon_cluster_term'' (Gauge_Set (sint (Node_GetTerm n))))
              (upd_reg (MRegistry_Gauge ''haribon_cluster_peers'' (Gauge_Set (int (Node_LivePeerCount now n)))) w)))"

section \<open>The proxy on the runtime\<close>

definition production_handler :: "(time \<Rightarrow> nat) \<Rightarrow> Config \<Rightarrow> world Handler" where
  "production_handler rnd cfg =
     New_Handler
       \<lparr>bi_Next = swappable_Next rnd, bi_NextForIP = Some (swappable_NextForIP rnd), bi_Done = swappable_Done\<rparr>
       (Some \<lparr>br_RecordSuccess = swappable_RecordSuccess, br_RecordFailure = swappable_RecordFailure\<rparr>)
       (Some (5 * second))
       \<lparr>HandlerTimeout = 10 * second, MaxRetries = rt_MaxRetries (cRetry cfg)\<rparr>
       (Some upd_reg) (Some makeProxyLogger)"

section \<open>Frame lemmas\<close>

lemma upd_reg_frame [simp]:
  "rt_sw (upd_reg f w) = rt_sw w" "rt_discovered (upd_reg f w) = rt_discovered w" "rt_node (upd_reg f w) = rt_node w"
  "rt_snapshot (upd_reg f w) = rt_snapshot w"
  "rt_late (upd_reg f w) = rt_late w" "rt_loaded (upd_reg f w) = rt_loaded w" "rt_sched (upd_reg f w) = rt_sched w"
  "g_backends (upd_reg f w) = g_backends w" "g_health (upd_reg f w) = g_health w" "g_log (upd_reg f w) = g_log w"
  by (simp_all add: upd_reg_def)

lemma emit_log_frame [simp]:
  "rt_sw (emit_log e w) = rt_sw w" "rt_discovered (emit_log e w) = rt_discovered w" "rt_node (emit_log e w) = rt_node w"
  "rt_snapshot (emit_log e w) = rt_snapshot w"
  "rt_late (emit_log e w) = rt_late w" "rt_loaded (emit_log e w) = rt_loaded w" "rt_sched (emit_log e w) = rt_sched w" "rt_reg (emit_log e w) = rt_reg w"
  "g_backends (emit_log e w) = g_backends w" "g_health (emit_log e w) = g_health w"
  by (simp_all add: emit_log_def)

lemma breakerLog_frame [simp]:
  "rt_sw (breakerLog c w) = rt_sw w" "rt_discovered (breakerLog c w) = rt_discovered w" "rt_node (breakerLog c w) = rt_node w"
  "rt_snapshot (breakerLog c w) = rt_snapshot w"
  "rt_late (breakerLog c w) = rt_late w" "rt_loaded (breakerLog c w) = rt_loaded w" "rt_sched (breakerLog c w) = rt_sched w"
  "g_backends (breakerLog c w) = g_backends w" "g_health (breakerLog c w) = g_health w"
  by (simp_all add: breakerLog_def Let_def split: prod.splits)

lemma fold_breakerLog_frame [simp]:
  "rt_sw (fold breakerLog cs w) = rt_sw w" "rt_discovered (fold breakerLog cs w) = rt_discovered w"
  "rt_node (fold breakerLog cs w) = rt_node w"
  "rt_snapshot (fold breakerLog cs w) = rt_snapshot w"
  "rt_late (fold breakerLog cs w) = rt_late w" "rt_loaded (fold breakerLog cs w) = rt_loaded w" "rt_sched (fold breakerLog cs w) = rt_sched w"
  "g_backends (fold breakerLog cs w) = g_backends w" "g_health (fold breakerLog cs w) = g_health w"
  by (induction cs arbitrary: w) simp_all

lemma makeLogger_frame [simp]:
  "rt_sw (makeHealthLogger b st w) = rt_sw w" "rt_node (makeHealthLogger b st w) = rt_node w"
  "rt_snapshot (makeHealthLogger b st w) = rt_snapshot w"
  "rt_late (makeHealthLogger b st w) = rt_late w" "rt_loaded (makeHealthLogger b st w) = rt_loaded w" "rt_snapshot (makeProxyLogger e w) = rt_snapshot w"
  "rt_late (makeProxyLogger e w) = rt_late w" "rt_loaded (makeProxyLogger e w) = rt_loaded w"
  "rt_sched (makeHealthLogger b st w) = rt_sched w" "rt_discovered (makeHealthLogger b st w) = rt_discovered w"
  "g_backends (makeHealthLogger b st w) = g_backends w" "g_health (makeHealthLogger b st w) = g_health w"
  "rt_sw (makeProxyLogger e w) = rt_sw w" "rt_node (makeProxyLogger e w) = rt_node w"
  "rt_sched (makeProxyLogger e w) = rt_sched w" "rt_discovered (makeProxyLogger e w) = rt_discovered w"
  "g_backends (makeProxyLogger e w) = g_backends w" "g_health (makeProxyLogger e w) = g_health w"
  by (simp_all add: makeHealthLogger_def makeProxyLogger_def Let_def)

lemma set_frame [simp]:
  "rt_discovered (set_breaker r w) = rt_discovered w" "rt_node (set_breaker r w) = rt_node w"
  "rt_sched (set_breaker r w) = rt_sched w" "rt_snapshot (set_breaker r w) = rt_snapshot w"
  "rt_late (set_breaker r w) = rt_late w" "rt_loaded (set_breaker r w) = rt_loaded w"
  "g_backends (set_breaker r w) = g_backends w" "g_health (set_breaker r w) = g_health w"
  "rt_discovered (set_bal b w) = rt_discovered w" "rt_node (set_bal b w) = rt_node w"
  "rt_sched (set_bal b w) = rt_sched w" "rt_snapshot (set_bal b w) = rt_snapshot w"
  "rt_late (set_bal b w) = rt_late w" "rt_loaded (set_bal b w) = rt_loaded w"
  "g_backends (set_bal b w) = g_backends w" "g_health (set_bal b w) = g_health w"
  by (simp_all add: set_breaker_def set_bal_def)

lemma seed_gauges_frame [simp]:
  "rt_sw (seed_gauges us w) = rt_sw w" "rt_discovered (seed_gauges us w) = rt_discovered w"
  "rt_node (seed_gauges us w) = rt_node w" "rt_snapshot (seed_gauges us w) = rt_snapshot w"
  "rt_sched (seed_gauges us w) = rt_sched w"
  "rt_late (seed_gauges us w) = rt_late w" "rt_loaded (seed_gauges us w) = rt_loaded w"
  "g_backends (seed_gauges us w) = g_backends w" "g_health (seed_gauges us w) = g_health w" "g_log (seed_gauges us w) = g_log w"
  by (induction us arbitrary: w) simp_all

section \<open>Availability\<close>

text \<open>A backend takes traffic when the local map, the gossip view and the breaker agree.\<close>

definition node_agrees :: "time \<Rightarrow> world \<Rightarrow> url \<Rightarrow> bool" where
  "node_agrees now w b = (case rt_node w of None \<Rightarrow> True | Some n \<Rightarrow> Node_GetHealth now n b True)"

definition ready :: "time \<Rightarrow> world \<Rightarrow> url \<Rightarrow> bool" where
  "ready now w b =
     (isHealthy w b \<and> node_agrees now w b
      \<and> (case cur_breaker w of None \<Rightarrow> True | Some r \<Rightarrow> fst (registry_avail now r b)))"

lemma refuse_no_calls: "Registry_IsAvailable now r u = (False, r', cs) \<Longrightarrow> r' = r \<and> cs = []"
  by (auto simp: Registry_IsAvailable_def transition_def Let_def split: option.splits State.splits if_splits)

lemma set_breaker_same: "cur_breaker w = Some r \<Longrightarrow> set_breaker r w = w"
  by (cases w) (auto simp: cur_breaker_def set_breaker_def split: option.splits)

lemma cur_breaker_set: "cur_breaker w = Some r \<Longrightarrow> cur_breaker (set_breaker r' w) = Some r'"
  by (auto simp: cur_breaker_def set_breaker_def split: option.splits)

lemma cur_breaker_cong: "rt_sw w = rt_sw w' \<Longrightarrow> cur_breaker w = cur_breaker w'"
  by (simp add: cur_breaker_def)

lemma avail_eq:
  "engineHealthChecker_IsAvailable now w b =
     (if isHealthy w b \<and> node_agrees now w b
      then case cur_breaker w of
             Some r \<Rightarrow> (case Registry_IsAvailable now r b of (ok, r', cs) \<Rightarrow> (ok, fold breakerLog cs (set_breaker r' w)))
           | None \<Rightarrow> (True, w)
      else (False, w))"
  by (cases "isHealthy w b"; cases "rt_node w")
    (simp_all add: engineHealthChecker_IsAvailable_def node_agrees_def)

lemma avail_cases:
  assumes "engineHealthChecker_IsAvailable now w b = (ok, w')"
  shows "ok = ready now w b"
    and "\<not> ok \<Longrightarrow> w' = w"
    and "ok \<Longrightarrow> (cur_breaker w = None \<and> w' = w)
      \<or> (\<exists>r cs. cur_breaker w = Some r \<and> w' = fold breakerLog cs (set_breaker (snd (registry_avail now r b)) w))"
proof -

  have "(ok = ready now w b) \<and> (\<not> ok \<longrightarrow> w' = w) \<and> (ok \<longrightarrow> (cur_breaker w = None \<and> w' = w)
      \<or> (\<exists>r cs. cur_breaker w = Some r \<and> w' = fold breakerLog cs (set_breaker (snd (registry_avail now r b)) w)))"
  proof (cases "isHealthy w b \<and> node_agrees now w b")
    case False
    with assms show ?thesis by (auto simp: avail_eq ready_def)
  next
    case up: True
    show ?thesis
    proof (cases "cur_breaker w")
      case None
      with assms up show ?thesis by (auto simp: avail_eq ready_def)
    next
      case (Some r)
      obtain ok' r' cs where a: "Registry_IsAvailable now r b = (ok', r', cs)" by (metis prod_cases3)
      then have "registry_avail now r b = (ok', r')" by (simp add: registry_avail_def)
      moreover have "ok' = ok" "w' = fold breakerLog cs (set_breaker r' w)"
        using assms up Some a by (auto simp: avail_eq)
      moreover have "\<not> ok' \<Longrightarrow> w' = w"
        using refuse_no_calls [of now r b r' cs] a calculation Some set_breaker_same by simp
      ultimately show ?thesis using Some up by (auto simp: ready_def)
    qed
  qed
  then show "ok = ready now w b" "\<not> ok \<Longrightarrow> w' = w" "ok \<Longrightarrow> (cur_breaker w = None \<and> w' = w)
      \<or> (\<exists>r cs. cur_breaker w = Some r \<and> w' = fold breakerLog cs (set_breaker (snd (registry_avail now r b)) w))"
    by blast+
qed

lemma avail_acceptedE:
  assumes "engineHealthChecker_IsAvailable now w b = (True, w')"
  obtains (no_breaker) "cur_breaker w = None" "w' = w"
  | (breaker) r cs where "cur_breaker w = Some r" "w' = fold breakerLog cs (set_breaker (snd (registry_avail now r b)) w)"
  using avail_cases(3) [OF assms TrueI] by (elim disjE exE conjE)

lemma offers_ready [simp]: "offers (engineHealthChecker_IsAvailable now) w b = ready now w b"
  by (cases "engineHealthChecker_IsAvailable now w b") (simp add: offers_def avail_cases(1))

text \<open>An accepted question changes nothing but the breaker, the metrics and the log.\<close>

lemma avail_frame:
  assumes "engineHealthChecker_IsAvailable now w b = (ok, w')"
  shows "rt_discovered w' = rt_discovered w" "rt_node w' = rt_node w" "rt_sched w' = rt_sched w"
    "rt_snapshot w' = rt_snapshot w"
    "g_backends w' = g_backends w" "g_health w' = g_health w"
    "map_option e_bal (rt_sw w') = map_option e_bal (rt_sw w)"
    "map_option e_backends (rt_sw w') = map_option e_backends (rt_sw w)"
    "rt_late w' = rt_late w" "rt_loaded w' = rt_loaded w"
  using avail_cases(2,3) [OF assms] by (cases ok; force simp: set_breaker_def option.map_comp comp_def)+

lemma ready_other:
  assumes "u \<noteq> v" "engineHealthChecker_IsAvailable now w u = (ok, w')"
  shows "ready now w' v = ready now w v"
proof (cases ok)
  case True
  with assms(2) have "engineHealthChecker_IsAvailable now w u = (True, w')" by simp
  then show ?thesis
  proof (cases rule: avail_acceptedE)
    case (breaker r cs)
    note r = breaker(1) and w' = breaker(2)
    have c: "cur_breaker w' = Some (snd (registry_avail now r u))"
      using cur_breaker_set [OF r] by (simp add: w' cur_breaker_def)
    have "fst (registry_avail now (snd (registry_avail now r u)) v) = fst (registry_avail now r v)"
      using registry.other [OF assms(1), of now r] by (simp add: offers_def)
    then show ?thesis
      by (simp add: ready_def c r isHealthy_def node_agrees_def avail_frame [OF assms(2)])
  qed simp
qed (use avail_cases(2) [OF assms(2)] in simp)

text \<open>The runtime's checker keeps the contract the balancers rely on, so their guarantees hold here.\<close>

interpretation engine: drawing_checker "engineHealthChecker_IsAvailable now" "rand_Intn k" for now k
proof
  fix w u w'
  assume "engineHealthChecker_IsAvailable now w u = (False, w')"
  then show "w' = w" by (rule avail_cases(2)) simp
next
  fix u v :: url and w
  assume "u \<noteq> v"
  then show "offers (engineHealthChecker_IsAvailable now) (snd (engineHealthChecker_IsAvailable now w u)) v
      = offers (engineHealthChecker_IsAvailable now) w v"
    using ready_other by (metis offers_ready prod.collapse)
next
  fix n :: nat
  assume "0 < n"
  then show "rand_Intn k n < n" by (simp add: rand_Intn_def)
qed

end
