(* ===== verification/Rebuild.thy ===== *)
theory Rebuild
  imports Engine
begin

text \<open>
  Properties of the runtime's generations: how the configured and the discovered backends are merged, what
  a rebuild publishes and what it carries over, and the invariant of the shared state under every
  operation of the process, in any order.
\<close>

section \<open>Merging the pool\<close>

text \<open>First occurrences of the elements of a list that are not in \<open>k\<close>.\<close>

fun nub :: "'a set \<Rightarrow> 'a list \<Rightarrow> 'a list" where
  "nub k [] = []"
| "nub k (x # xs) = (if x \<in> k then nub k xs else x # nub (insert x k) xs)"

definition config_entry :: "Backend list \<Rightarrow> url \<Rightarrow> BackendEntry" where
  "config_entry bs u = \<lparr>URL = u, Weight = (case find (\<lambda>b. Host b = u) bs of Some b \<Rightarrow> bk_Weight b | None \<Rightarrow> 1)\<rparr>"

lemma nub_append: "nub k (xs @ ys) = nub k xs @ nub (k \<union> set xs) ys"
  by (induction k xs rule: nub.induct) (auto simp: insert_absorb Un_commute)

lemma set_nub [simp]: "set (nub k xs) = set xs - k"
  by (induction k xs rule: nub.induct) auto

lemma distinct_nub [simp]: "distinct (nub k xs)"
  by (induction k xs rule: nub.induct) auto

lemma merge_config_eq:
  "merge_config bs known acc =
     (known \<union> (set (map Host bs) - {''''}), acc @ map (config_entry bs) (nub (insert '''' known) (map Host bs)))"
proof (induction bs known acc rule: merge_config.induct)
  case (2 b bs known acc)
  show ?case
  proof (cases "Host b = '''' \<or> Host b \<in> known")
    case True
    have "map (config_entry (b # bs)) (nub (insert '''' known) (map Host bs))
        = map (config_entry bs) (nub (insert '''' known) (map Host bs))"
      using True by (intro map_cong) (auto simp: config_entry_def)
    with True 2 show ?thesis by (auto simp: insert_absorb)
  next
    case False
    have "map (config_entry (b # bs)) (nub (insert (Host b) (insert '''' known)) (map Host bs))
        = map (config_entry bs) (nub (insert '''' (insert (Host b) known)) (map Host bs))"
      by (subst insert_commute) (intro map_cong, auto simp: config_entry_def)
    moreover have "config_entry (b # bs) (Host b) = \<lparr>URL = Host b, Weight = bk_Weight b\<rparr>"
      by (simp add: config_entry_def)
    ultimately show ?thesis using False 2 by auto
  qed
qed simp

lemma merge_discovered_eq:
  "merge_discovered us known acc = acc @ map (\<lambda>u. \<lparr>URL = u, Weight = 1\<rparr>) (nub (insert '''' known) us)"
  by (induction us known acc rule: merge_discovered.induct) (auto simp: insert_commute)

lemma mergeEntries_eq:
  "mergeEntries cb disc = map (config_entry cb) (nub {''''} (map Host cb @ disc))"
proof -
  let ?k = "insert '''' (set (map Host cb))"
  have "map (\<lambda>u. \<lparr>URL = u, Weight = 1\<rparr>) (nub ?k disc) = map (config_entry cb) (nub ?k disc)"
    by (intro map_cong) (auto simp: config_entry_def find_None_iff_all split: option.splits dest!: find_SomeD)
  moreover have "insert '''' (set (map Host cb) - {''''}) = ?k" by auto
  ultimately show ?thesis
    by (simp add: mergeEntries_def merge_config_eq merge_discovered_eq nub_append)
qed

lemma mergeEntries_pool:
  "map URL (mergeEntries cb disc) = nub {''''} (map Host cb @ disc)"
  by (simp add: mergeEntries_eq comp_def config_entry_def)

section \<open>What a rebuild publishes\<close>

definition new_entries :: "Config \<Rightarrow> world \<Rightarrow> BackendEntry list" where
  "new_entries cfg w = mergeEntries (cBackends cfg) (rt_discovered w)"

text \<open>The configuration can be built: a known strategy, a non-empty pool, no negative weight when weights count.\<close>

definition buildable :: "Config \<Rightarrow> world \<Rightarrow> bool" where
  "buildable cfg w =
     (\<exists>b. New_Balancer (Strategy (cBalancer cfg)) (new_entries cfg w) = Ok b)"

lemma rebuild_not_buildable: "\<not> buildable cfg w \<Longrightarrow> rebuild cfg w = w"
  using New_Balancer_never_panics
  by (auto simp: rebuild_def buildable_def new_entries_def Let_def split: go.split)

lemma New_Balancer_nonempty: "New_Balancer s bs = Ok b \<Longrightarrow> bs \<noteq> []"
  using New_Balancer_iff by blast

lemma rebuild_published:
  assumes "New_Balancer (Strategy (cBalancer cfg)) (new_entries cfg w) = Ok bal"
  defines "urls \<equiv> map URL (new_entries cfg w)"
    and "brk \<equiv> NewRegistry (map URL (new_entries cfg w)) (bc_FailureThreshold (cBreaker cfg)) (seconds (bc_CooldownSec (cBreaker cfg))) True"
    and "w' \<equiv> rebuild cfg w"
  shows "rt_sw w' = Some \<lparr>
        e_bal = (case rt_sw w of None \<Rightarrow> bal | Some p \<Rightarrow> ConnsCarrier_CarryOverConns bal (e_bal p)),
        e_breaker = Some (case rt_sw w of None \<Rightarrow> brk | Some p \<Rightarrow> Registry_CarryOver brk (e_breaker p)),
        e_backends = urls\<rparr>"
    and "g_backends w' = urls"
    and "g_health w' = (\<lambda>u. if u \<in> set urls then g_health w u else None)"
    and "rt_node w' = rt_node w" "rt_discovered w' = rt_discovered w" "rt_snapshot w' = rt_snapshot w"
    and "rt_sched w' = (if hc_Enabled (cHealth cfg)
           then Some (NewScheduler urls (scheduler_config (cHealth cfg)) None, \<lambda>u. probe_init) else None)"
    and "rt_loaded w' = rt_loaded w"
    and "rt_late w' = rt_late w @ (case rt_sched w of None \<Rightarrow> []
           | Some (s, probes) \<Rightarrow> map (\<lambda>b. (sched_cfg s, b, probes b)) (sched_backends s))"
  using assms New_Balancer_nonempty [OF assms(1)]
  by (simp_all add: w'_def urls_def brk_def rebuild_def Let_def new_entries_def startScheduler_def pruneHealth_def
      setBackends_def stopScheduler_def cong: if_cong option.case_cong split: option.split prod.split)

section \<open>The invariant of the shared state\<close>

definition Registry_ok :: "Registry \<Rightarrow> bool" where
  "Registry_ok r = (\<forall>u br. breakers r u = Some br \<longrightarrow> backend br = u \<and> 0 \<le> consecutiveFails br)"

definition engine_wf :: "engine \<Rightarrow> bool" where
  "engine_wf e =
     (Balancer_wf (e_bal e) \<and> Balancer_Backends (e_bal e) = e_backends e \<and> e_backends e \<noteq> [] \<and> distinct (e_backends e)
      \<and> (\<exists>r. e_breaker e = Some r \<and> Registry_ok r \<and> dom (breakers r) = set (e_backends e)))"

text \<open>The backends that goroutines of stopped schedulers may still write about.\<close>

definition late_backends :: "world \<Rightarrow> url set" where
  "late_backends w = (\<lambda>(cfg, b, st). b) ` set (rt_late w)"

definition world_wf :: "world \<Rightarrow> bool" where
  "world_wf w =
     ((case rt_sw w of
         None \<Rightarrow> g_backends w = []
       | Some e \<Rightarrow> engine_wf e \<and> g_backends w = e_backends e)
      \<and> dom (g_health w) \<subseteq> set (g_backends w) \<union> late_backends w
      \<and> (\<forall>s probes. rt_sched w = Some (s, probes) \<longrightarrow> sched_backends s = g_backends w))"

lemma Registry_ok_ops:
  "Registry_ok (NewRegistry us th c l)"
  "Registry_ok r \<Longrightarrow> Registry_ok (snd (registry_avail t r u))"
  "Registry_ok r \<Longrightarrow> Registry_ok (fst (Registry_RecordSuccess r u))"
  "Registry_ok r \<Longrightarrow> Registry_ok (fst (Registry_RecordFailure t r u))"
  "Registry_ok r \<Longrightarrow> Registry_ok r0 \<Longrightarrow> Registry_ok (Registry_CarryOver r (Some r0))"
  by (auto simp: Registry_ok_def NewRegistry_apply new_breaker_def registry_eqs CarryOver_apply
      split: option.splits State.splits if_splits)

lemma Registry_dom:
  "dom (breakers (NewRegistry us th c l)) = set us"
  "dom (breakers (snd (registry_avail t r u))) = dom (breakers r)"
  "dom (breakers (fst (Registry_RecordSuccess r u))) = dom (breakers r)"
  "dom (breakers (fst (Registry_RecordFailure t r u))) = dom (breakers r)"
  "dom (breakers (Registry_CarryOver r o')) = dom (breakers r)"
  by (auto simp: dom_def NewRegistry_apply registry_eqs Registry_CarryOver_def split: option.splits State.splits if_splits)

lemmas Registry_laws = Registry_ok_ops Registry_dom

text \<open>The invariant only looks at five fields.\<close>

lemma world_wf_cong:
  "rt_sw w' = rt_sw w \<Longrightarrow> g_backends w' = g_backends w \<Longrightarrow> g_health w' = g_health w \<Longrightarrow> rt_sched w' = rt_sched w
   \<Longrightarrow> rt_late w' = rt_late w \<Longrightarrow> world_wf w' = world_wf w"
  by (simp add: world_wf_def late_backends_def cong: option.case_cong)

lemma world_wf_quiet [simp]:
  "world_wf (upd_reg f w) = world_wf w" "world_wf (emit_log e w) = world_wf w"
  "world_wf (fold breakerLog cs w) = world_wf w" "world_wf (makeProxyLogger le w) = world_wf w"
  "world_wf (makeHealthLogger b st w) = world_wf w" "world_wf (w\<lparr>rt_node := n\<rparr>) = world_wf w"
  by (rule world_wf_cong; simp)+

lemma world_wf_breaker:
  assumes "world_wf w" "cur_breaker w = Some r" "Registry_ok r \<Longrightarrow> Registry_ok r'" "dom (breakers r') = dom (breakers r)"
  shows "world_wf (set_breaker r' w)"
  using assms
  by (auto simp: world_wf_def set_breaker_def cur_breaker_def engine_wf_def late_backends_def split: option.splits)

lemma world_wf_bal:
  assumes "world_wf w" "rt_sw w = Some e" "Balancer_wf (e_bal e) \<Longrightarrow> Balancer_wf b"
    "Balancer_Backends b = Balancer_Backends (e_bal e)"
  shows "world_wf (set_bal b w)"
  using assms by (auto simp: world_wf_def set_bal_def engine_wf_def late_backends_def)

text \<open>Every question keeps the invariant, so every pick does.\<close>

interpretation wf_kept: ask_kept "engineHealthChecker_IsAvailable now" world_wf for now
proof
  fix w u ok w'
  assume wf: "world_wf w" and a: "engineHealthChecker_IsAvailable now w u = (ok, w')"
  show "world_wf w'"
  proof (cases ok)
    case True
    with a have "engineHealthChecker_IsAvailable now w u = (True, w')" by simp
    then show ?thesis
    proof (cases rule: avail_acceptedE)
      case (breaker r cs)
      show ?thesis unfolding breaker(2) world_wf_quiet
        by (rule world_wf_breaker [OF wf breaker(1)]) (simp_all add: Registry_laws)
    qed (use wf in simp)
  qed (use avail_cases(2) [OF a] wf in simp)
qed

lemma set_bal_same: "rt_sw w = Some e \<Longrightarrow> e_bal e = b \<Longrightarrow> set_bal b w = w"
  by (cases w) (auto simp: set_bal_def)

interpretation pool_kept: ask_kept "engineHealthChecker_IsAvailable now"
  "\<lambda>v. map_option e_bal (rt_sw v) = b \<and> map_option e_backends (rt_sw v) = us" for now b us
  by unfold_locales (auto simp: avail_frame)

lemma Next_same_pool:
  assumes "Balancer_Next intn (engineHealthChecker_IsAvailable now) b w = (res, b', w')" "rt_sw w = Some e"
  shows "\<exists>e'. rt_sw w' = Some e' \<and> e_bal e' = e_bal e \<and> e_backends e' = e_backends e"
  using pool_kept.Next_kept [OF _ assms(1)] assms(2) by (cases "rt_sw w'") auto

section \<open>Which configurations can be built\<close>

lemma set_new_entries: "set (map URL (new_entries cfg w)) = (Host ` set (cBackends cfg) \<union> set (rt_discovered w)) - {''''}"
  unfolding new_entries_def mergeEntries_pool by simp

lemma distinct_new_entries: "distinct (map URL (new_entries cfg w))" "[] \<notin> set (map URL (new_entries cfg w))"
  unfolding new_entries_def mergeEntries_pool by simp_all

lemma new_entries_weight:
  "list_all valid_backend (cBackends cfg) \<Longrightarrow> b \<in> set (new_entries cfg w) \<Longrightarrow> 0 \<le> Weight b"
  by (auto simp: new_entries_def mergeEntries_eq config_entry_def list_all_iff valid_backend_def
      split: option.splits dest!: find_SomeD)

lemma strategies_same: "set valid_strategies = set strategies"
  by (auto simp: valid_strategies_def strategies_def)

lemma valid_buildable:
  assumes "valid_config cfg" "Strategy (cBalancer cfg) \<noteq> ''''"
  shows "buildable cfg w \<longleftrightarrow> (\<exists>u. u \<in> Host ` set (cBackends cfg) \<union> set (rt_discovered w) \<and> u \<noteq> '''')"
proof -
  have s: "Strategy (cBalancer cfg) \<in> set strategies" and v: "list_all valid_backend (cBackends cfg)"
    using assms strategies_same by (auto simp: valid_config_def Let_def)
  have "new_entries cfg w \<noteq> [] \<longleftrightarrow> set (map URL (new_entries cfg w)) \<noteq> {}" by simp
  then have "new_entries cfg w \<noteq> []
      \<longleftrightarrow> (\<exists>u. u \<in> Host ` set (cBackends cfg) \<union> set (rt_discovered w) \<and> u \<noteq> '''')"
    unfolding set_new_entries by blast
  then show ?thesis
    unfolding buildable_def New_Balancer_iff using s new_entries_weight [OF v] by auto
qed

section \<open>A rebuild keeps the invariant\<close>

lemma length_nub: "length (nub k xs) \<le> length xs"
  by (induction k xs rule: nub.induct) auto

lemma CarryOverConns_pool [simp]:
  "Balancer_Backends (ConnsCarrier_CarryOverConns b b0) = Balancer_Backends b"
  "Balancer_wf b \<Longrightarrow> Balancer_wf (ConnsCarrier_CarryOverConns b b0)"
  by (cases b; auto simp: ConnsCarrier_CarryOverConns_def leastConn_CarryOverConns_def ConnsReporter_ActiveConns_def
      Balancer_Backends_def leastConn_Backends_def dom_def split: Balancer.splits option.splits)+

lemma engine_wf_new:
  assumes new: "New_Balancer (Strategy (cBalancer cfg)) (new_entries cfg w) = Ok bal"
    and len: "length (cBackends cfg) + length (rt_discovered w) < 2 ^ 32"
    and wf: "world_wf w"
  shows "\<exists>e. rt_sw (rebuild cfg w) = Some e \<and> engine_wf e \<and> e_backends e = map URL (new_entries cfg w)"
proof -
  have "length (new_entries cfg w) < 2 ^ 32"
    using len length_nub [of "{''''}" "map Host (cBackends cfg) @ rt_discovered w"]
    by (simp add: new_entries_def mergeEntries_eq)
  with New_Balancer_wf [OF new] distinct_new_entries
  have b: "Balancer_wf bal \<and> Balancer_Backends bal = map URL (new_entries cfg w)" by blast
  have prev: "\<And>p r. rt_sw w = Some p \<Longrightarrow> e_breaker p = Some r \<Longrightarrow> Registry_ok r"
    using wf by (auto simp: world_wf_def engine_wf_def)
  have old: "\<And>p. rt_sw w = Some p \<Longrightarrow> \<exists>r. e_breaker p = Some r"
    using wf by (auto simp: world_wf_def engine_wf_def)
  show ?thesis
    unfolding rebuild_published(1) [OF new] engine_wf_def
    using b prev old distinct_new_entries New_Balancer_nonempty [OF new]
    by (cases "rt_sw w") (auto simp: Registry_laws)
qed

lemma world_wf_rebuild:
  assumes wf: "world_wf w" and len: "length (cBackends cfg) + length (rt_discovered w) < 2 ^ 32"
  shows "world_wf (rebuild cfg w)"
proof (cases "buildable cfg w")
  case True
  then obtain bal where new: "New_Balancer (Strategy (cBalancer cfg)) (new_entries cfg w) = Ok bal"
    by (auto simp: buildable_def)
  obtain e where "rt_sw (rebuild cfg w) = Some e" "engine_wf e" "e_backends e = map URL (new_entries cfg w)"
    using engine_wf_new [OF new len wf] by blast
  then show ?thesis
    using rebuild_published(2-7) [OF new]
    by (auto simp: world_wf_def NewScheduler_def dom_def split: if_splits option.splits)
qed (simp add: rebuild_not_buildable wf)

section \<open>Runs of the process\<close>

text \<open>
  Every call the goroutines of the process make on the shared state: the proxy's and the balancer's calls,
  the readiness probe, probe ticks, gossip, the reload and discovery callbacks and the metrics. A run is
  any interleaving of them. The callbacks occur in two forms: undisturbed, as one operation, and cut into the
  steps between which others may run. A call that reached a generation just before it was replaced changes
  only that generation, which nobody reads any more, and writes the log (\<open>OpOldGeneration\<close>).
\<close>

datatype operation =
    OpNext "time \<Rightarrow> nat" time
  | OpNextForIP "time \<Rightarrow> nat" time string
  | OpDone url
  | OpSuccess url
  | OpFailure time url
  | OpReadyz time
  | OpReload machine string
  | OpDiscovery "url list"
  | OpProbe url "int option"
  | OpGossipIn time GossipMessage
  | OpGossipRound "string \<Rightarrow> bool" time
  | OpMetricsTick time
  | OpCount "MRegistry \<Rightarrow> MRegistry"
  | OpLog proxy_LogEntry
  | OpLateProbe nat "int option"
  | OpOldGeneration "log_call list"
  | OpDiscovered "url list"
  | OpStore machine string
  | OpLoad
  | OpRebuild nat

text \<open>A signal or a poll of the configuration file, on the world that holds the snapshot.\<close>

definition reload_event :: "machine \<Rightarrow> string \<Rightarrow> world \<Rightarrow> world" where
  "reload_event m path w =
     (case Snapshot_Reload m path (rt_snapshot w) of
        (Some e, s') \<Rightarrow> w\<lparr>rt_snapshot := s'\<rparr>
      | (None, s') \<Rightarrow> OnConfigReload (Snapshot_Load s') (w\<lparr>rt_snapshot := s'\<rparr>))"

fun exec :: "operation \<Rightarrow> world \<Rightarrow> world" where
  "exec (OpNext rnd now) w = snd (swappable_Next rnd now w)"
| "exec (OpNextForIP rnd now ip) w = snd (swappable_NextForIP rnd now ip w)"
| "exec (OpDone u) w = swappable_Done u w"
| "exec (OpSuccess u) w = swappable_RecordSuccess u w"
| "exec (OpFailure now u) w = swappable_RecordFailure now u w"
| "exec (OpReadyz now) w = snd (swappable_HasHealthyBackend now w)"
| "exec (OpReload m path) w = reload_event m path w"
| "exec (OpDiscovery urls) w = OnDiscovery urls w"
| "exec (OpProbe u reply) w = probe_backend u reply w"
| "exec (OpGossipIn now msg) w = receive_gossip now msg w"
| "exec (OpGossipRound dial now) w = gossip_round dial now w"
| "exec (OpMetricsTick now) w = cluster_metrics_tick now w"
| "exec (OpCount f) w = upd_reg f w"
| "exec (OpLog e) w = makeProxyLogger e w"
| "exec (OpLateProbe i reply) w = late_probe i reply w"
| "exec (OpOldGeneration calls) w = fold breakerLog calls w"
| "exec (OpDiscovered urls) w = discovery_noted urls w"
| "exec (OpStore m path) w = snapshot_stored m path w"
| "exec OpLoad w = config_loaded w"
| "exec (OpRebuild i) w = loaded_rebuild i w"

text \<open>
  The pools stay small enough for the 32-bit arithmetic of the hashing strategy: fewer than \<open>2 ^ 31\<close>
  backends in any configuration file and in any discovery result. Host names have no unresolved reference.
\<close>

definition machine_ok :: "machine \<Rightarrow> bool" where
  "machine_ok m = (plain_hostname m \<and> (\<forall>s cfg. yaml_Unmarshal m s = Some cfg \<longrightarrow> length (cBackends cfg) < 2 ^ 31))"

fun op_ok :: "operation \<Rightarrow> bool" where
  "op_ok (OpReload m path) = machine_ok m"
| "op_ok (OpStore m path) = machine_ok m"
| "op_ok (OpDiscovery urls) = (length urls < 2 ^ 31)"
| "op_ok (OpDiscovered urls) = (length urls < 2 ^ 31)"
| "op_ok _ = True"

definition config_ok :: "Config \<Rightarrow> bool" where
  "config_ok cfg = (valid_config cfg \<and> defaulted cfg \<and> length (cBackends cfg) < 2 ^ 31)"

definition world_inv :: "world \<Rightarrow> bool" where
  "world_inv w =
     (world_wf w \<and> config_ok (snap_cfg (rt_snapshot w)) \<and> list_all config_ok (rt_loaded w)
      \<and> length (rt_discovered w) < 2 ^ 31)"

subsection \<open>The invariant, operation by operation\<close>

lemma wf_pick:
  assumes wf: "world_wf w" and e: "rt_sw w = Some e"
    and n: "Balancer_Next intn (engineHealthChecker_IsAvailable now) (e_bal e) w = (res, b', w')"
  shows "world_wf (set_bal b' w')"
proof -
  obtain e' where e': "rt_sw w' = Some e'" "e_bal e' = e_bal e" using Next_same_pool [OF n e] by blast
  show ?thesis
    using wf_kept.Next_kept [OF wf n] e'(1)
    by (rule world_wf_bal) (use Balancer_Next_pool [OF n] e'(2) in simp_all)
qed

lemma wf_NextForIP: "world_wf w \<Longrightarrow> world_wf (snd (swappable_NextForIP rnd now ip w))"
  using wf_kept.NextForIP_kept [of w now _ ip]
  by (auto simp: swappable_NextForIP_def wf_pick prod_eq_iff split: option.split Balancer.split prod.split)

lemma wf_Next: "world_wf w \<Longrightarrow> world_wf (snd (swappable_Next rnd now w))"
  by (auto simp: swappable_Next_def wf_pick split: option.split prod.split)

lemma wf_Done: "world_wf w \<Longrightarrow> world_wf (swappable_Done u w)"
  by (auto simp: swappable_Done_def intro: world_wf_bal split: option.split)

lemma wf_Success:
  assumes "world_wf w"
  shows "world_wf (swappable_RecordSuccess u w)"
proof (cases "cur_breaker w")
  case (Some r)
  have "world_wf (set_breaker (fst (Registry_RecordSuccess r u)) w)"
    by (rule world_wf_breaker [OF assms Some]) (simp_all add: Registry_laws)
  then show ?thesis by (simp add: swappable_RecordSuccess_def Some case_prod_unfold)
qed (simp add: swappable_RecordSuccess_def assms)

lemma wf_Failure:
  assumes "world_wf w"
  shows "world_wf (swappable_RecordFailure now u w)"
proof (cases "cur_breaker w")
  case (Some r)
  have "world_wf (set_breaker (fst (Registry_RecordFailure now r u)) w)"
    by (rule world_wf_breaker [OF assms Some]) (simp_all add: Registry_laws)
  then show ?thesis by (simp add: swappable_RecordFailure_def Some case_prod_unfold)
qed (simp add: swappable_RecordFailure_def assms)

lemma wf_ask_until: "world_wf w \<Longrightarrow> world_wf (snd (ask_until now us w))"
  by (induction now us w rule: ask_until.induct) (auto dest: wf_kept.kept split: prod.splits bool.splits)

lemma wf_Readyz: "world_wf w \<Longrightarrow> world_wf (snd (swappable_HasHealthyBackend now w))"
  by (simp add: swappable_HasHealthyBackend_def wf_ask_until split: option.split)

text \<open>A probe writes the verdict of a backend it was started for.\<close>

lemma wf_effects:
  assumes "world_wf w" "b \<in> set (g_backends w) \<union> late_backends w" "probe_tick c b ok st = (st', effs)"
  shows "world_wf (fold apply_effect effs w)"
proof -
  have "world_wf (apply_effect (WriteState b v) w)" for v
    using assms(1,2)
    by (auto simp: world_wf_def stateWriter_def setHealth_def late_backends_def Let_def split: option.splits)
  moreover have "effs = [] \<or> (\<exists>v l r. effs = [WriteState b v, LogState b l r])"
    using assms(3) by (auto simp: probe_tick_def Let_def split: if_splits)
  ultimately show ?thesis using assms(1) by auto
qed

lemma wf_probe:
  assumes wf: "world_wf w"
  shows "world_wf (probe_backend b reply w)"
proof (cases "rt_sched w")
  case (Some sp)
  obtain s probes where sp: "sp = (s, probes)" by fastforce
  have s: "sched_backends s = g_backends w" using wf Some sp by (simp add: world_wf_def)
  then have w: "world_wf (w\<lparr>rt_sched := Some (s, p)\<rparr>)" for p
    using wf by (simp add: world_wf_def late_backends_def cong: option.case_cong)
  show ?thesis
    using wf Some sp s by (auto simp: probe_backend_def Let_def intro: wf_effects [OF w] split: prod.split)
qed (simp add: probe_backend_def wf)

lemma wf_late:
  assumes wf: "world_wf w"
  shows "world_wf (late_probe i reply w)"
proof (cases "i < length (rt_late w)")
  case True
  obtain c b st where l: "rt_late w ! i = (c, b, st)" by (metis prod_cases3)
  have late: "late_backends (w\<lparr>rt_late := (rt_late w)[i := (c, b, st')]\<rparr>) = late_backends w" for st'
  proof -
    have "map (\<lambda>(c, b, st). b) ((rt_late w)[i := (c, b, st')]) = map (\<lambda>(c, b, st). b) (rt_late w)"
      using True l by (intro nth_equalityI) (auto simp: nth_list_update)
    then show ?thesis by (simp add: late_backends_def flip: set_map)
  qed
  moreover from late wf have "world_wf (w\<lparr>rt_late := (rt_late w)[i := (c, b, st')]\<rparr>)" for st'
    by (simp add: world_wf_def cong: option.case_cong)
  moreover have "b \<in> late_backends w" using nth_mem [OF True] l by (force simp: late_backends_def)
  ultimately show ?thesis
    using True l by (auto simp: late_probe_def Let_def intro: wf_effects split: prod.split)
qed (simp add: late_probe_def wf)

text \<open>
  What every question to the checker and every change of the balancer keeps, every pick, every \<open>Done\<close> and
  every readiness probe keeps.
\<close>

locale runtime_kept =
  fixes I :: "world \<Rightarrow> bool"
  assumes ask: "I w \<Longrightarrow> engineHealthChecker_IsAvailable now w u = (ok, w') \<Longrightarrow> I w'"
    and bal: "I w \<Longrightarrow> I (set_bal b w)"

sublocale runtime_kept \<subseteq> asks: ask_kept "engineHealthChecker_IsAvailable now" I for now
  by unfold_locales (rule ask)

context runtime_kept
begin

lemma Next: "I w \<Longrightarrow> I (snd (swappable_Next rnd now w))"
  by (auto simp: swappable_Next_def intro!: bal intro: asks.Next_kept split: option.split prod.split)

lemma NextForIP: "I w \<Longrightarrow> I (snd (swappable_NextForIP rnd now ip w))"
  by (auto simp: swappable_NextForIP_def intro!: bal
      intro: asks.Next_kept asks.NextForIP_kept [OF _ prod.collapse [symmetric]] split: option.split prod.split Balancer.split)

lemma Done: "I w \<Longrightarrow> I (swappable_Done u w)"
  by (simp add: swappable_Done_def bal split: option.split)

lemma ask_until: "I w \<Longrightarrow> I (snd (ask_until now us w))"
  by (induction us arbitrary: w) (auto dest: ask split: prod.splits bool.splits)

lemma HasHealthyBackend: "I w \<Longrightarrow> I (snd (swappable_HasHealthyBackend now w))"
  by (simp add: swappable_HasHealthyBackend_def ask_until split: option.split)

lemmas routing = Next NextForIP Done HasHealthyBackend

end

lemma sw_effects: "rt_sw (fold apply_effect effs w) = rt_sw w"
proof (induction effs arbitrary: w)
  case (Cons e effs)
  then show ?case by (cases e) (simp_all add: stateWriter_def setHealth_def Let_def)
qed simp

text \<open>Only the callbacks write the snapshot, the discovered list and the loaded configurations.\<close>

definition settings :: "world \<Rightarrow> Snapshot \<times> url list \<times> Config list" where
  "settings w = (rt_snapshot w, rt_discovered w, rt_loaded w)"

lemma settings_quiet [simp]:
  "settings (upd_reg f w) = settings w" "settings (set_bal bal w) = settings w" "settings (set_breaker r w) = settings w"
  "settings (fold breakerLog cs w) = settings w" "settings (makeProxyLogger le w) = settings w"
  "settings (makeHealthLogger b l w) = settings w" "settings (w\<lparr>rt_node := n\<rparr>) = settings w"
  "settings (w\<lparr>rt_sched := sc\<rparr>) = settings w" "settings (w\<lparr>rt_late := la\<rparr>) = settings w"
  "settings (stateWriter b v w) = settings w"
  by (simp_all add: settings_def stateWriter_def setHealth_def Let_def)

interpretation settings: runtime_kept "\<lambda>v. settings v = st" for st
  by unfold_locales (auto simp: settings_def avail_frame)

lemma settings_effects: "settings (fold apply_effect effs w) = settings w"
proof (induction effs arbitrary: w)
  case (Cons e effs)
  then show ?case by (cases e) simp_all
qed simp

fun rebuilds :: "operation \<Rightarrow> bool" where
  "rebuilds (OpReload m path) = True"
| "rebuilds (OpDiscovery urls) = True"
| "rebuilds (OpRebuild i) = True"
| "rebuilds _ = False"

fun reconfigures :: "operation \<Rightarrow> bool" where
  "reconfigures (OpDiscovered urls) = True"
| "reconfigures (OpStore m path) = True"
| "reconfigures OpLoad = True"
| "reconfigures a = rebuilds a"

lemma settings_exec: "\<not> reconfigures a \<Longrightarrow> settings (exec a w) = settings w"
  by (cases a)
    (simp_all add: settings.routing swappable_RecordSuccess_def swappable_RecordFailure_def probe_backend_def
      late_probe_def settings_effects receive_gossip_def gossip_round_def cluster_metrics_tick_def Let_def
      split: option.split prod.split)

lemma rebuild_settings [simp]: "rt_snapshot (rebuild cfg w) = rt_snapshot w"
  "rt_discovered (rebuild cfg w) = rt_discovered w" "rt_loaded (rebuild cfg w) = rt_loaded w"
  using rebuild_published(5,6,8) rebuild_not_buildable by (auto simp: buildable_def) metis+

lemma wf_exec_quiet:
  "\<not> reconfigures a \<Longrightarrow> world_wf w \<Longrightarrow> world_wf (exec a w)"
  by (cases a)
    (simp_all add: wf_Next wf_NextForIP wf_Done wf_Success wf_Failure wf_Readyz wf_probe wf_late receive_gossip_def
      gossip_round_def cluster_metrics_tick_def split: option.split)

lemma Load_backends:
  "Load rd un env path = Ok cfg \<Longrightarrow> \<exists>s c. un s = Some c \<and> cBackends cfg = cBackends c"
  by (auto simp: Load_def split: option.splits)

lemma Reload_config_ok:
  assumes "machine_ok m" "config_ok (snap_cfg s)"
  shows "config_ok (snap_cfg (snd (Snapshot_Reload m path s)))"
proof -
  have "length (cBackends (snap_cfg (snd (Snapshot_Reload m path s)))) < 2 ^ 31"
  proof (cases "Load (read_file m) (yaml_Unmarshal m) (environment m) path")
    case (Ok cfg)
    then have "length (cBackends cfg) < 2 ^ 31" using assms(1) Load_backends [OF Ok] by (auto simp: machine_ok_def)
    with assms(2) Ok show ?thesis
      by (simp add: Snapshot_Reload_def Let_def ApplyEnvOverrides_def Defaults_def config_ok_def split: option.split)
  qed (use assms in \<open>simp_all add: Snapshot_Reload_def config_ok_def\<close>)
  with Reload_ready [of s m path] assms show ?thesis by (simp add: config_ok_def machine_ok_def)
qed

text \<open>The callbacks are made of three kinds of steps, each of which keeps the invariant.\<close>

lemma world_inv_settings:
  assumes "world_inv w" "config_ok (snap_cfg s)" "length us < 2 ^ 31" "list_all config_ok l"
  shows "world_inv (w\<lparr>rt_snapshot := s, rt_discovered := us, rt_loaded := l\<rparr>)"
proof -
  have "world_wf (w\<lparr>rt_snapshot := s, rt_discovered := us, rt_loaded := l\<rparr>) = world_wf w"
    by (rule world_wf_cong) simp_all
  with assms show ?thesis by (simp add: world_inv_def)
qed

lemma world_inv_rebuild:
  assumes "world_inv w" "config_ok cfg"
  shows "world_inv (rebuild cfg w)"
proof -
  have "world_wf (rebuild cfg w)"
    using assms by (intro world_wf_rebuild) (simp_all add: world_inv_def config_ok_def)
  with assms(1) show ?thesis by (simp add: world_inv_def)
qed

lemma world_inv_discovered:
  assumes "world_inv w" "length urls < 2 ^ 31"
  shows "world_inv (w\<lparr>rt_discovered := urls\<rparr>)"
  using world_inv_settings [OF assms(1) _ assms(2), of "rt_snapshot w" "rt_loaded w"] assms(1) by (simp add: world_inv_def)

lemma world_inv_snapshot:
  assumes "world_inv w" "config_ok (snap_cfg s)"
  shows "world_inv (w\<lparr>rt_snapshot := s\<rparr>)"
  using world_inv_settings [OF assms, of "rt_discovered w" "rt_loaded w"] assms(1) by (simp add: world_inv_def)

lemma world_inv_loaded:
  assumes "world_inv w" "list_all config_ok l"
  shows "world_inv (w\<lparr>rt_loaded := l\<rparr>)"
  using world_inv_settings [OF assms(1), of "rt_snapshot w" "rt_discovered w" l] assms by (simp add: world_inv_def)

lemma world_inv_reload:
  assumes inv: "world_inv w" and ok: "machine_ok m"
  shows "world_inv (reload_event m path w)"
proof -
  obtain err s' where r: "Snapshot_Reload m path (rt_snapshot w) = (err, s')" by fastforce
  have s': "config_ok (snap_cfg s')"
    using Reload_config_ok [OF ok, of "rt_snapshot w" path] inv r by (simp add: world_inv_def)
  from world_inv_snapshot [OF inv s'] s' show ?thesis
    by (cases err) (simp_all add: reload_event_def r OnConfigReload_def Snapshot_Load_def world_inv_rebuild)
qed

lemma world_inv_discovery:
  assumes inv: "world_inv w" and ok: "length urls < 2 ^ 31"
  shows "world_inv (OnDiscovery urls w)"
proof -
  have "config_ok (snap_cfg (rt_snapshot w))" using inv by (simp add: world_inv_def)
  with world_inv_discovered [OF assms] inv show ?thesis
    by (simp add: OnDiscovery_def Snapshot_Load_def Let_def world_inv_rebuild)
qed

lemma world_inv_steps:
  assumes inv: "world_inv w"
  shows "length urls < 2 ^ 31 \<Longrightarrow> world_inv (discovery_noted urls w)"
    and "machine_ok m \<Longrightarrow> world_inv (snapshot_stored m path w)"
    and "world_inv (config_loaded w)"
    and "world_inv (loaded_rebuild i w)"
proof -
  have c: "config_ok (snap_cfg (rt_snapshot w))" and l: "list_all config_ok (rt_loaded w)"
    using inv by (simp_all add: world_inv_def)
  show "length urls < 2 ^ 31 \<Longrightarrow> world_inv (discovery_noted urls w)"
    by (simp add: discovery_noted_def inv world_inv_discovered)
  show "machine_ok m \<Longrightarrow> world_inv (snapshot_stored m path w)"
    by (simp add: snapshot_stored_def inv world_inv_snapshot Reload_config_ok c)
  show "world_inv (config_loaded w)"
    by (simp add: config_loaded_def inv world_inv_loaded Snapshot_Load_def c l)
  show "world_inv (loaded_rebuild i w)"
  proof (cases "i < length (rt_loaded w)")
    case True
    have "list_all config_ok (take i (rt_loaded w) @ drop (Suc i) (rt_loaded w))"
      using l by (auto simp: list_all_iff dest: in_set_takeD in_set_dropD)
    from world_inv_loaded [OF inv this] True l show ?thesis
      by (simp add: loaded_rebuild_def world_inv_rebuild list_all_length)
  qed (simp add: loaded_rebuild_def inv)
qed

lemma world_inv_exec:
  assumes "world_inv w" "op_ok a"
  shows "world_inv (exec a w)"
proof (cases "reconfigures a")
  case True
  with assms show ?thesis
    using world_inv_reload [of w] world_inv_discovery [of w] world_inv_steps [of w]
    by (cases a) (simp_all only: exec.simps op_ok.simps reconfigures.simps rebuilds.simps simp_thms)
next
  case False
  then show ?thesis
    using assms wf_exec_quiet [OF False] settings_exec [OF False, of w] by (simp add: world_inv_def settings_def)
qed

lemma world_inv_run: "world_inv w \<Longrightarrow> list_all op_ok ops \<Longrightarrow> world_inv (fold exec ops w)"
  by (induction ops arbitrary: w) (simp_all add: world_inv_exec)

text \<open>A process that has a pool never loses it.\<close>

definition serving :: "world \<Rightarrow> bool" where
  "serving w = (rt_sw w \<noteq> None)"

lemma serving_cong: "rt_sw w' = rt_sw w \<Longrightarrow> serving w' = serving w"
  by (simp add: serving_def)

lemma serving_quiet [simp]:
  "serving (set_bal bal w) = serving w" "serving (set_breaker r w) = serving w"
  "serving (upd_reg f w) = serving w" "serving (fold breakerLog cs w) = serving w"
  "serving (makeProxyLogger le w) = serving w" "serving (w\<lparr>rt_node := n\<rparr>) = serving w"
  "serving (w\<lparr>rt_sched := sc\<rparr>) = serving w" "serving (w\<lparr>rt_snapshot := sn\<rparr>) = serving w"
  "serving (w\<lparr>rt_discovered := us\<rparr>) = serving w" "serving (w\<lparr>rt_loaded := l\<rparr>) = serving w"
  "serving (w\<lparr>rt_late := la\<rparr>) = serving w"
  by (simp_all add: serving_def set_bal_def set_breaker_def)

interpretation serving: runtime_kept serving
proof
  fix now w u ok w'
  assume "serving w" "engineHealthChecker_IsAvailable now w u = (ok, w')"
  then show "serving w'" by (metis serving_def avail_frame(8) map_option_is_None)
qed simp

lemma serving_rebuild: "serving w \<Longrightarrow> serving (rebuild cfg w)"
  using rebuild_published(1) [of cfg w] rebuild_not_buildable [of cfg w]
  by (cases "buildable cfg w") (auto simp: buildable_def serving_def)

lemma serving_exec: "serving w \<Longrightarrow> serving (exec a w)"
  using serving_rebuild
  by (cases a)
    (simp_all add: serving.routing swappable_RecordSuccess_def swappable_RecordFailure_def serving_cong [OF sw_effects]
      probe_backend_def late_probe_def receive_gossip_def gossip_round_def cluster_metrics_tick_def
      reload_event_def OnConfigReload_def OnDiscovery_def discovery_noted_def snapshot_stored_def config_loaded_def
      loaded_rebuild_def Let_def split: option.split prod.split)

lemma serving_run: "serving w \<Longrightarrow> serving (fold exec ops w)"
  by (induction ops arbitrary: w) (simp_all add: serving_exec)

subsection \<open>What a rebuild keeps\<close>

lemma rebuild_ready:
  assumes inv: "world_wf w" and "buildable cfg w" and u: "u \<in> set (map URL (new_entries cfg w))"
  shows "isHealthy (rebuild cfg w) u = isHealthy w u"
    and "node_agrees now (rebuild cfg w) u = node_agrees now w u"
    and "cur_breaker w = Some r \<Longrightarrow> breakers r u = Some br \<Longrightarrow> cooldown br = seconds (bc_CooldownSec (cBreaker cfg))
       \<Longrightarrow> ready now (rebuild cfg w) u = ready now w u"
    and "u \<notin> set (swappable_Backends w) \<Longrightarrow> ready now (rebuild cfg w) u = (isHealthy w u \<and> node_agrees now w u)"
proof -
  obtain bal where new: "New_Balancer (Strategy (cBalancer cfg)) (new_entries cfg w) = Ok bal"
    using assms(2) by (auto simp: buildable_def)
  note pub = rebuild_published [OF new]
  show h: "isHealthy (rebuild cfg w) u = isHealthy w u" using u pub(3) by (simp add: isHealthy_def)
  show n: "node_agrees now (rebuild cfg w) u = node_agrees now w u" using pub(4) by (simp add: node_agrees_def)
  have cur: "cur_breaker (rebuild cfg w) = Some (case rt_sw w of None \<Rightarrow>
        NewRegistry (map URL (new_entries cfg w)) (bc_FailureThreshold (cBreaker cfg)) (seconds (bc_CooldownSec (cBreaker cfg))) True
      | Some p \<Rightarrow> Registry_CarryOver (NewRegistry (map URL (new_entries cfg w)) (bc_FailureThreshold (cBreaker cfg))
          (seconds (bc_CooldownSec (cBreaker cfg))) True) (e_breaker p))"
    using pub(1) by (simp add: cur_breaker_def)
  show "cur_breaker w = Some r \<Longrightarrow> breakers r u = Some br \<Longrightarrow> cooldown br = seconds (bc_CooldownSec (cBreaker cfg))
       \<Longrightarrow> ready now (rebuild cfg w) u = ready now w u"
    using u h n unfolding ready_def cur
    by (auto simp: cur_breaker_def registry_avail_eq CarryOver_apply NewRegistry_apply new_breaker_def
        split: option.splits State.splits)
  show "ready now (rebuild cfg w) u = (isHealthy w u \<and> node_agrees now w u)" if new_u: "u \<notin> set (swappable_Backends w)"
  proof -
    have "breakers r u = None" if "cur_breaker w = Some r" for r
      using inv new_u that
      by (auto simp: world_wf_def engine_wf_def swappable_Backends_def cur_breaker_def split: option.splits)
    then show ?thesis
      using u h n unfolding ready_def cur
      by (auto simp: cur_breaker_def registry_avail_eq CarryOver_apply NewRegistry_apply new_breaker_def
          Registry_CarryOver_def split: option.splits)
  qed
qed

lemma rebuild_conns:
  assumes wf: "world_wf w" and b: "buildable cfg w" and s: "Strategy (cBalancer cfg) = ''least_connections''"
    and e: "rt_sw w = Some e" "e_bal e = LeastConn l"
    and u: "u \<in> set (map URL (new_entries cfg w))" "u \<in> set (e_backends e)"
  shows "\<exists>e' l'. rt_sw (rebuild cfg w) = Some e' \<and> e_bal e' = LeastConn l' \<and> lc_conns l' u = lc_conns l u"
proof -
  obtain bal where new: "New_Balancer (Strategy (cBalancer cfg)) (new_entries cfg w) = Ok bal"
    using b by (auto simp: buildable_def)
  then obtain l0 where l0: "bal = LeastConn l0" "lc_conns l0 = init_conns (new_entries cfg w) Map.empty"
    by (auto simp: New_Balancer_def s NewLeastConnections_def split: if_splits)
  have "dom (lc_conns l) = set (e_backends e)"
    using wf e by (simp add: world_wf_def engine_wf_def Balancer_Backends_def leastConn_Backends_def) (metis set_map)
  then have "lc_conns l u \<noteq> None" using u(2) by blast
  then show ?thesis
    using rebuild_published(1) [OF new] e l0 u(1)
    by (auto simp: ConnsCarrier_CarryOverConns_def leastConn_CarryOverConns_def ConnsReporter_ActiveConns_def
        leastConn_ActiveConns_def init_conns_apply)
qed

section \<open>Properties\<close>

text \<open>
  C27: the pool a rebuild routes over. It is the list of the configured hosts followed by the discovered
  URLs, with empty and repeated entries dropped; a configured host has the weight of its first entry, a
  URL that is only discovered has weight 1.
\<close>

theorem mergeEntries_correct:
  "mergeEntries cb disc = map (config_entry cb) (nub {''''} (map Host cb @ disc))
   \<and> distinct (map URL (mergeEntries cb disc))
   \<and> set (map URL (mergeEntries cb disc)) = (Host ` set cb \<union> set disc) - {''''}"
  unfolding mergeEntries_pool by (simp add: mergeEntries_eq)

text \<open>
  Whether a valid, defaulted configuration can be built depends only on there being a backend at all.
  A configuration that \<open>Validate\<close> accepts and that lists a backend always builds; one that relies on
  discovery builds as soon as a URL is found; until then a rebuild changes nothing at all.
\<close>

theorem valid_config_builds:
  fixes w cfg hn
  assumes "Validate cfg = None" and "\<not> contains ''${'' hn"
  defines "found \<equiv> filter (\<lambda>u. u \<noteq> '''') (rt_discovered w)"
  shows "buildable (Defaults (Some hn) cfg) w = (cBackends cfg \<noteq> [] \<or> found \<noteq> [])
     \<and> (cBackends cfg = [] \<and> found = [] \<longrightarrow> rebuild (Defaults (Some hn) cfg) w = w)"
proof -
  let ?c = "Defaults (Some hn) cfg"
  have v: "valid_config ?c" using assms(1,2) by (simp add: Validate_iff Defaults_valid)
  have s: "Strategy (cBalancer ?c) \<noteq> ''''" using Defaults_defaulted [of "Some hn" cfg] by (simp add: defaulted_def)
  have "list_all valid_backend (cBackends cfg)" using assms(1) by (simp add: Validate_iff valid_config_def Let_def)
  then have h: "\<forall>b\<in>set (cBackends cfg). Host b \<noteq> ''''" by (simp add: list_all_iff valid_backend_def)
  have "cBackends ?c = cBackends cfg" by (simp add: Defaults_def)
  with valid_buildable [OF v s, of w] h
  have b: "buildable ?c w = (cBackends cfg \<noteq> [] \<or> found \<noteq> [])"
    by (cases "cBackends cfg") (auto simp: found_def filter_empty_conv)
  moreover have "\<not> buildable ?c w \<Longrightarrow> rebuild ?c w = w" by (rule rebuild_not_buildable)
  ultimately show ?thesis by blast
qed

text \<open>
  C7: what a rebuild publishes. The new generation routes over exactly the merged pool, which is also what
  the status endpoint lists; the health verdict of every backend in it is the one known before; a backend
  present in both generations takes traffic exactly when it did before (if the cooldown is the same), and a
  new backend takes traffic unless the cluster reports it down (or a probe of an earlier generation has, after
  that generation was replaced); under least-connections the counters of the backends that stay are carried over.
\<close>

theorem rebuild_correct:
  fixes w cfg
  defines "w' \<equiv> rebuild cfg w" and "pool \<equiv> map URL (new_entries cfg w)"
  assumes "world_inv w" and "buildable cfg w"
  shows "swappable_Backends w' = pool \<and> getBackends w' = pool
     \<and> (\<forall>u. u \<in> set pool \<longrightarrow> isHealthy w' u = isHealthy w u)
     \<and> (\<forall>u r br now. u \<in> set pool \<and> cur_breaker w = Some r \<and> breakers r u = Some br
           \<and> cooldown br = seconds (bc_CooldownSec (cBreaker cfg)) \<longrightarrow> ready now w' u = ready now w u)
     \<and> (\<forall>u now. u \<in> set pool \<and> u \<notin> set (swappable_Backends w)
           \<longrightarrow> ready now w' u = (isHealthy w u \<and> node_agrees now w u) \<and> (u \<notin> late_backends w \<longrightarrow> isHealthy w u))
     \<and> (\<forall>e l u. rt_sw w = Some e \<and> e_bal e = LeastConn l \<and> u \<in> set pool \<and> u \<in> set (e_backends e)
           \<and> Strategy (cBalancer cfg) = ''least_connections'' \<longrightarrow>
           (\<exists>e' l'. rt_sw w' = Some e' \<and> e_bal e' = LeastConn l' \<and> lc_conns l' u = lc_conns l u))"
proof (intro conjI allI impI; (elim conjE)?)
  have wf: "world_wf w" using assms(3) by (simp add: world_inv_def)
  obtain bal where new: "New_Balancer (Strategy (cBalancer cfg)) (new_entries cfg w) = Ok bal"
    using assms(4) by (auto simp: buildable_def)
  note pub = rebuild_published [OF new] and keep = rebuild_ready [OF wf assms(4)]
  show "swappable_Backends w' = pool" "getBackends w' = pool"
    using pub(1,2) by (simp_all add: w'_def pool_def swappable_Backends_def getBackends_def)
  show "isHealthy w' u = isHealthy w u" if "u \<in> set pool" for u
    using keep(1) that by (simp add: w'_def pool_def)
  show "ready now w' u = ready now w u"
    if "u \<in> set pool" "cur_breaker w = Some r" "breakers r u = Some br" "cooldown br = seconds (bc_CooldownSec (cBreaker cfg))"
    for u r br now
    using keep(3) that by (simp add: w'_def pool_def)
  show "ready now w' u = (isHealthy w u \<and> node_agrees now w u)" if "u \<in> set pool" "u \<notin> set (swappable_Backends w)" for u now
    using keep(4) that by (simp add: w'_def pool_def)
  show "isHealthy w u" if "u \<notin> set (swappable_Backends w)" "u \<notin> late_backends w" for u
    using wf that by (auto simp: isHealthy_def world_wf_def swappable_Backends_def split: option.splits)
  show "\<exists>e' l'. rt_sw w' = Some e' \<and> e_bal e' = LeastConn l' \<and> lc_conns l' u = lc_conns l u"
    if "rt_sw w = Some e" "e_bal e = LeastConn l" "u \<in> set pool" "u \<in> set (e_backends e)"
      "Strategy (cBalancer cfg) = ''least_connections''" for e l u
    using rebuild_conns [OF wf assms(4)] that by (simp add: w'_def pool_def)
qed

text \<open>A process started on the minimal configuration.\<close>

definition demo_start :: world where
  "demo_start = newRuntime (NewSnapshot demo_config) (Some New_MRegistry) None"

lemma newRuntime_inv:
  assumes "valid_config (snap_cfg s)" "defaulted (snap_cfg s)" "length (cBackends (snap_cfg s)) < 2 ^ 31"
  shows "world_inv (newRuntime s reg node)"
  using assms by (simp add: world_inv_def world_wf_def config_ok_def newRuntime_def)

lemma demo_config_fields:
  "cBackends demo_config = [\<lparr>Host = ''http://a'', bk_Weight = 0\<rparr>]" "Strategy (cBalancer demo_config) = ''round_robin''"
  by (simp_all add: demo_config_def Defaults_def zero_Config_def)

lemma demo_start_inv: "world_inv demo_start"
  unfolding demo_start_def
  by (rule newRuntime_inv)
    (simp_all add: NewSnapshot_def demo_config_valid demo_config_fields, simp add: demo_config_def Defaults_defaulted)

lemma demo_buildable: "buildable demo_config w"
  using valid_buildable [OF demo_config_valid, of w] by (simp add: demo_config_fields) blast

lemma demo_pool: "map URL (new_entries demo_config demo_start) = [''http://a'']"
  by (simp add: new_entries_def mergeEntries_pool demo_config_fields demo_start_def newRuntime_def)

theorem valid_config_builds_witness:
  "buildable (Defaults (Some ''node'') (zero_Config\<lparr>cBackends := [\<lparr>Host = ''http://a'', bk_Weight = 0\<rparr>]\<rparr>)) demo_start"
proof -
  let ?c = "zero_Config\<lparr>cBackends := [\<lparr>Host = ''http://a'', bk_Weight = 0\<rparr>]\<rparr>"
  have "Validate ?c = None"
    using demo_backend by (simp add: Validate_iff valid_config_def zero_Config_def)
  moreover have "\<not> contains ''${'' ''node''" by code_simp
  ultimately show ?thesis using valid_config_builds [of ?c "''node''" demo_start] by simp
qed

theorem rebuild_correct_witness:
  "swappable_Backends (rebuild demo_config demo_start) = [''http://a'']
   \<and> ready 0 (rebuild demo_config demo_start) ''http://a''"
proof -
  have "swappable_Backends demo_start = []" "node_agrees 0 demo_start ''http://a''" "late_backends demo_start = {}"
    by (simp_all add: demo_start_def newRuntime_def swappable_Backends_def node_agrees_def late_backends_def)
  with rebuild_correct [OF demo_start_inv demo_buildable] show ?thesis by (simp add: demo_pool)
qed

text \<open>
  C4: the invariant of the shared state. Start the process on a valid, complete configuration; then after
  any interleaving of requests, breaker reports, readiness probes, health probes, gossip, and the steps of
  reloads and discovery results, with probes that outlive their scheduler and calls that still reach a replaced
  generation: the balancer and the breakers cover exactly the published pool, which is non-empty and
  without repetitions; the running probes cover that pool, and the health map speaks of its backends and of those
  of probes that outlived their scheduler only; every configuration in force or about to be applied is valid and
  complete; and once a pool is published, there is always one.
\<close>

theorem runtime_invariant:
  fixes s reg node
  assumes "valid_config (snap_cfg s)" "defaulted (snap_cfg s)" "length (cBackends (snap_cfg s)) < 2 ^ 31"
    and "list_all op_ok ops" and "list_all op_ok later"
  defines "w0 \<equiv> newRuntime s reg node"
  shows "world_inv (fold exec ops w0)
     \<and> (serving (fold exec ops w0) \<longrightarrow> serving (fold exec (ops @ later) w0))
     \<and> (cBackends (snap_cfg s) \<noteq> [] \<longrightarrow> serving (rebuild (snap_cfg s) w0))"
proof (intro conjI impI)
  show "world_inv (fold exec ops w0)"
    unfolding w0_def by (rule world_inv_run [OF newRuntime_inv]) (fact assms)+
  show "serving (fold exec (ops @ later) w0)" if "serving (fold exec ops w0)"
    using serving_run [OF that] by simp
  show "serving (rebuild (snap_cfg s) w0)" if c: "cBackends (snap_cfg s) \<noteq> []"
  proof -
    have "Host (hd (cBackends (snap_cfg s))) \<noteq> ''''"
      using assms(1) c by (cases "cBackends (snap_cfg s)") (auto simp: valid_config_def Let_def valid_backend_def)
    then have "buildable (snap_cfg s) w0"
      using valid_buildable [OF assms(1)] assms(2) c by (auto simp: defaulted_def intro!: exI [of _ "Host (hd (cBackends (snap_cfg s)))"])
    then show ?thesis using rebuild_published(1) by (auto simp: buildable_def serving_def)
  qed
qed

theorem runtime_invariant_witness:
  "world_inv (fold exec [OpDiscovery [''http://b''], OpNextForIP (\<lambda>t. 0) 5 ''1.2.3.4'', OpFailure 6 ''http://b'', OpReadyz 7] demo_start)
   \<and> serving (rebuild demo_config demo_start)"
proof -
  have "list_all op_ok [OpDiscovery [''http://b''], OpNextForIP (\<lambda>t. 0) 5 ''1.2.3.4'', OpFailure 6 ''http://b'', OpReadyz 7]"
    by simp
  from runtime_invariant [of "NewSnapshot demo_config", OF _ _ _ this, of "[]" "Some New_MRegistry" None]
  show ?thesis
    using demo_start_inv
    by (simp add: demo_start_def world_inv_def config_ok_def newRuntime_def NewSnapshot_def demo_config_fields)
qed

end
