(* ===== verification/Serving.thy ===== *)
theory Serving
  imports Rebuild
begin

text \<open>
  The proxy on the live runtime: which backend a request gets, what a whole request leaves behind while the
  other goroutines run, and who holds the trial slot of a half-open backend.
\<close>

section \<open>Picking a backend\<close>

lemma pick_NextForIP:
  assumes wf: "world_wf w" and e: "rt_sw w = Some e" and fits: "Balancer_fits (e_bal e)"
  shows "fst (swappable_NextForIP rnd now ip w) = Ok u \<Longrightarrow> u \<in> set (g_backends w) \<and> ready now w u"
    and "fst (swappable_NextForIP rnd now ip w) = Fail err \<Longrightarrow> err = ErrNoHealthyBackend \<and> (\<forall>u\<in>set (g_backends w). \<not> ready now w u)"
    and "fst (swappable_NextForIP rnd now ip w) \<noteq> Panic"
proof -
  have b: "Balancer_wf (e_bal e)" "Balancer_Backends (e_bal e) = g_backends w"
    using wf e by (simp_all add: world_wf_def engine_wf_def)
  let ?r = "fst (swappable_NextForIP rnd now ip w)"
  have "(?r = Ok u \<longrightarrow> u \<in> set (g_backends w) \<and> ready now w u)
      \<and> (?r = Fail err \<longrightarrow> err = ErrNoHealthyBackend \<and> (\<forall>u\<in>set (g_backends w). \<not> ready now w u)) \<and> ?r \<noteq> Panic"
  proof (cases "\<exists>i. e_bal e = IPHash i")
    case True
    then obtain i where i: "e_bal e = IPHash i" by blast
    let ?us = "rotation (unat (fnv32a ip) mod length (iph_backends i)) (ipHash_Backends i)"
    have "?r = fst (pick_first (engineHealthChecker_IsAvailable now) ?us w)"
      using engine.ipHash_NextForIP_spec b i e by (simp add: swappable_NextForIP_def)
    moreover have "set ?us = set (g_backends w)"
      using b i by (simp add: Balancer_Backends_def ipHash_Backends_def)
    ultimately show ?thesis
      using pick_first_fst [of "engineHealthChecker_IsAvailable now" ?us w] by simp
  next
    case False
    then have "?r = fst (Balancer_Next (rand_Intn (rnd now)) (engineHealthChecker_IsAvailable now) (e_bal e) w)"
      using e by (cases "e_bal e") (simp_all add: swappable_NextForIP_def split: prod.split)
    then show ?thesis
      using engine.next_ready [OF b(1) fits] engine.next_fails [OF b(1) fits] engine.next_no_panic [OF b(1) fits] b(2)
      by (metis offers_ready)
  qed
  then show "?r = Ok u \<Longrightarrow> u \<in> set (g_backends w) \<and> ready now w u"
    "?r = Fail err \<Longrightarrow> err = ErrNoHealthyBackend \<and> (\<forall>u\<in>set (g_backends w). \<not> ready now w u)" "?r \<noteq> Panic"
    by blast+
qed

section \<open>Whole requests\<close>

lemma handler_sel [simp]:
  "h_bal (production_handler rnd cfg) =
     \<lparr>bi_Next = swappable_Next rnd, bi_NextForIP = Some (swappable_NextForIP rnd), bi_Done = swappable_Done\<rparr>"
  "h_breaker (production_handler rnd cfg) =
     Some \<lparr>br_RecordSuccess = swappable_RecordSuccess, br_RecordFailure = swappable_RecordFailure\<rparr>"
  "h_reg (production_handler rnd cfg) = Some upd_reg"
  "h_logger (production_handler rnd cfg) = Some makeProxyLogger"
  by (simp_all add: production_handler_def New_Handler_def Let_def)

lemma handler_ops [simp]:
  "pickBackend (production_handler rnd cfg) now ip w = swappable_NextForIP rnd now ip w"
  "fst (report_failure (production_handler rnd cfg) now u w) = swappable_RecordFailure now u w"
  "fst (report_success (production_handler rnd cfg) u w) = swappable_RecordSuccess u w"
  "log_entry (production_handler rnd cfg) le w = makeProxyLogger le w"
  "setDurationGauge (production_handler rnd cfg) u ms w =
     upd_reg (MRegistry_Gauge (MetricName ''haribon_last_duration_ms'' ''backend'' u) (Gauge_Set ms)) w"
  by (simp_all add: pickBackend_def report_failure_def report_success_def log_entry_def setDurationGauge_def)

lemma handler_count:
  "incCounter (production_handler rnd cfg) n l v w =
     upd_reg (MRegistry_Counter (if l \<noteq> '''' then MetricName n l v else n) Counter_Inc) w"
  by (simp add: incCounter_def Let_def)

text \<open>The calls of a request are operations of the process, so a request keeps the invariant of the runtime.\<close>

interpretation host: proxy_host "production_handler rnd cfg" world_inv "\<lambda>u. world_inv" for rnd cfg
proof
  fix t ip w w' u e
  assume i: "world_inv w"
  then have n: "world_inv (snd (swappable_NextForIP rnd t ip w))"
    using world_inv_exec [OF i, of "OpNextForIP rnd t ip"] by simp
  show "pickBackend (production_handler rnd cfg) t ip w = (Ok u, w') \<Longrightarrow> world_inv w'"
    "pickBackend (production_handler rnd cfg) t ip w = (Fail e, w') \<Longrightarrow> world_inv w'"
    "pickBackend (production_handler rnd cfg) t ip w = (Panic, w') \<Longrightarrow> world_inv w'"
    using n by simp_all
next
  fix u w t
  assume "world_inv w"
  then have d: "world_inv (swappable_Done u w)" using world_inv_exec [of w "OpDone u"] by simp
  show "world_inv (fst (report_failure (production_handler rnd cfg) t u (bi_Done (h_bal (production_handler rnd cfg)) u w)))"
    "world_inv (fst (report_success (production_handler rnd cfg) u (bi_Done (h_bal (production_handler rnd cfg)) u w)))"
    using world_inv_exec [OF d, of "OpFailure t u"] world_inv_exec [OF d, of "OpSuccess u"] by simp_all
next
  fix u w n l v ms le
  assume "world_inv (w :: world)"
  then show "world_inv (incCounter (production_handler rnd cfg) n l v w)"
    "world_inv (setDurationGauge (production_handler rnd cfg) u ms w)"
    "world_inv (log_entry (production_handler rnd cfg) le w)"
    using world_inv_exec [of w "OpCount _"] world_inv_exec [of w "OpLog le"] by (simp_all add: handler_count)
qed (use world_inv_exec [of _ "OpCount _"] in \<open>simp add: handler_count\<close>)

section \<open>Trial slots\<close>

text \<open>
  A backend is half-open while its trial slot is taken. The slots are \<^emph>\<open>held\<close> by the requests in flight
  \<open>F\<close> when every half-open backend has a request among them.
\<close>

definition half_open :: "world \<Rightarrow> url \<Rightarrow> bool" where
  "half_open w u =
     (case cur_breaker w of None \<Rightarrow> False
      | Some r \<Rightarrow> (case breakers r u of None \<Rightarrow> False | Some br \<Rightarrow> state br = StateHalfOpen))"

definition rotates :: "world \<Rightarrow> bool" where
  "rotates w = (case rt_sw w of None \<Rightarrow> True | Some e \<Rightarrow> rotating (e_bal e))"

definition held :: "url multiset \<Rightarrow> world \<Rightarrow> bool" where
  "held F w = (rotates w \<and> (\<forall>u. half_open w u \<longrightarrow> u \<in># F))"

lemma slots_quiet [simp]:
  "half_open (set_bal b w) u = half_open w u" "half_open (upd_reg f w) u = half_open w u"
  "half_open (fold breakerLog cs w) u = half_open w u" "half_open (makeProxyLogger le w) u = half_open w u"
  "rotates (upd_reg f w) = rotates w" "rotates (fold breakerLog cs w) = rotates w"
  "rotates (makeProxyLogger le w) = rotates w" "rotates (set_breaker r w) = rotates w"
  by (auto simp: half_open_def rotates_def cur_breaker_def set_bal_def set_breaker_def split: option.splits)

lemma held_quiet [simp]:
  "held F (upd_reg f w) = held F w" "held F (fold breakerLog cs w) = held F w" "held F (makeProxyLogger le w) = held F w"
  by (simp_all add: held_def)

lemma half_open_set: "cur_breaker w = Some r \<Longrightarrow> half_open (set_breaker r' w) u
    = (case breakers r' u of None \<Rightarrow> False | Some br \<Rightarrow> state br = StateHalfOpen)"
  by (simp add: half_open_def cur_breaker_set)

lemma half_open_ask:
  assumes "engineHealthChecker_IsAvailable now w u = (True, w')" and "half_open w' v"
  shows "v = u \<or> half_open w v"
  using assms(1)
proof (cases rule: avail_acceptedE)
  case (breaker r cs)
  have "half_open (set_breaker (snd (registry_avail now r u)) w) v" using assms(2) breaker(2) by simp
  then show ?thesis
    by (auto simp: half_open_set [OF breaker(1)] half_open_def [of w] breaker(1) registry_avail_eq
        split: option.splits State.splits if_splits)
qed (use assms(2) in simp)

lemma rotates_ask: "engineHealthChecker_IsAvailable now w u = (ok, w') \<Longrightarrow> rotates w' = rotates w"
  using avail_frame(7) [of now w u ok w'] by (cases "rt_sw w"; cases "rt_sw w'") (simp_all add: rotates_def)

text \<open>A rotating strategy stops at the first yes, so it takes no slot but the one of its choice.\<close>

interpretation slots: ask_state "engineHealthChecker_IsAvailable now" "held F" "\<lambda>u. held (add_mset u F)" for now F
proof
  fix w u w'
  assume "held F w" "engineHealthChecker_IsAvailable now w u = (False, w')"
  then show "held F w'" using avail_cases(2) by blast
next
  fix w u w'
  assume "held F w" "engineHealthChecker_IsAvailable now w u = (True, w')"
  then show "held (add_mset u F) w'" using half_open_ask rotates_ask by (fastforce simp: held_def)
qed

lemma held_set_bal: "rotating b \<Longrightarrow> held F w \<Longrightarrow> held F (set_bal b w)"
  by (auto simp: held_def rotates_def set_bal_def [of b w] half_open_def cur_breaker_def split: option.splits)

lemma picked_set_bal:
  "rotating b \<Longrightarrow> picked_state (held F) (\<lambda>u. held (add_mset u F)) res w
   \<Longrightarrow> picked_state (held F) (\<lambda>u. held (add_mset u F)) res (set_bal b w)"
  by (auto simp: picked_state_def held_set_bal split: go.splits)

lemma held_NextForIP:
  assumes "held F w"
  shows "picked_state (held F) (\<lambda>u. held (add_mset u F)) (fst (swappable_NextForIP rnd now ip w)) (snd (swappable_NextForIP rnd now ip w))"
proof (cases "rt_sw w")
  case (Some e)
  have rot: "rotating (e_bal e)" using assms Some by (simp add: held_def rotates_def)
  show ?thesis
  proof (cases "\<exists>i. e_bal e = IPHash i")
    case True
    then show ?thesis
      using slots.NextForIP_state [OF assms prod.collapse [symmetric]] Some by (auto simp: swappable_NextForIP_def)
  next
    case False
    obtain res b' w' where n:
      "Balancer_Next (rand_Intn (rnd now)) (engineHealthChecker_IsAvailable now) (e_bal e) w = (res, b', w')"
      by (metis prod_cases3)
    have "swappable_NextForIP rnd now ip w = (res, set_bal b' w')"
      using False Some n by (cases "e_bal e") (simp_all add: swappable_NextForIP_def)
    then show ?thesis
      using picked_set_bal slots.Next_rotating_state [OF rot assms n] Balancer_Next_pool(3) [OF n] rot by simp
  qed
qed (use assms in \<open>simp add: swappable_NextForIP_def picked_state_def\<close>)

lemma held_Done: "held F w \<Longrightarrow> held F (swappable_Done u w)"
  by (cases "rt_sw w") (auto simp: swappable_Done_def intro!: held_set_bal, simp add: held_def rotates_def)

text \<open>A report about \<open>u\<close>, good or bad, gives its slot back.\<close>

lemma held_report:
  assumes "held F w" "add_mset u F' = F \<or> F' = F"
  shows "held F' (swappable_RecordSuccess u w)" "held F' (swappable_RecordFailure now u w)"
proof -
  have v: "v \<in># F'" if "v \<in># F" "v \<noteq> u" for v using assms(2) that by auto
  show "held F' (swappable_RecordSuccess u w)" "held F' (swappable_RecordFailure now u w)"
    using assms(1) v
    by (auto simp: held_def swappable_RecordSuccess_def swappable_RecordFailure_def case_prod_unfold half_open_set
        registry_eqs half_open_def [of w] split: option.splits if_splits) (metis option.distinct(1))+
qed


interpretation trial: proxy_host "production_handler rnd cfg" "held F" "\<lambda>u. held (add_mset u F)" for rnd cfg F
proof
  fix t ip w w' u e
  assume "held F w"
  note p = held_NextForIP [OF this, of rnd t ip]
  show "pickBackend (production_handler rnd cfg) t ip w = (Ok u, w') \<Longrightarrow> held (add_mset u F) w'"
    "pickBackend (production_handler rnd cfg) t ip w = (Fail e, w') \<Longrightarrow> held F w'"
    "pickBackend (production_handler rnd cfg) t ip w = (Panic, w') \<Longrightarrow> held F w'"
    using p by (simp_all add: picked_state_def)
next
  fix u w t
  assume "held (add_mset u F) w"
  then have "held (add_mset u F) (swappable_Done u w)" by (rule held_Done)
  from held_report [OF this] show
    "held F (fst (report_failure (production_handler rnd cfg) t u (bi_Done (h_bal (production_handler rnd cfg)) u w)))"
    "held F (fst (report_success (production_handler rnd cfg) u (bi_Done (h_bal (production_handler rnd cfg)) u w)))"
    by simp_all
qed (simp_all add: handler_count)

text \<open>
  Requests in flight, interleaved with everything else the process does. A request is in flight from its
  pick to its report; the readiness probe is left out (see below), and reloads and discovery must end with a
  rotating strategy. A pick that loaded a generation just before it was replaced takes its backend, and possibly
  a slot, there; its report goes to the generation current by then.
\<close>

fun background :: "operation \<Rightarrow> bool" where
  "background (OpNext rnd now) = False"
| "background (OpNextForIP rnd now ip) = False"
| "background (OpSuccess u) = False"
| "background (OpFailure now u) = False"
| "background (OpReadyz now) = False"
| "background _ = True"


lemma slots_cong: "rt_sw w' = rt_sw w \<Longrightarrow> held F w' = held F w"
  by (simp add: held_def rotates_def half_open_def cur_breaker_def)

lemma sw_background: "background a \<Longrightarrow> \<not> rebuilds a \<Longrightarrow> (\<And>u. a \<noteq> OpDone u) \<Longrightarrow> rt_sw (exec a w) = rt_sw w"
  by (cases a) (auto simp: probe_backend_def late_probe_def sw_effects receive_gossip_def gossip_round_def
      cluster_metrics_tick_def discovery_noted_def snapshot_stored_def config_loaded_def Let_def
      split: option.split prod.split)



section \<open>Losing a backend\<close>

text \<open>Operations that neither report on \<open>u\<close> nor rebuild the engine.\<close>

fun silent_on :: "url \<Rightarrow> operation \<Rightarrow> bool" where
  "silent_on u (OpSuccess v) = (v \<noteq> u)"
| "silent_on u (OpFailure now v) = (v \<noteq> u)"
| "silent_on u a = (\<not> rebuilds a)"

lemma half_open_not_ready: "half_open w u \<Longrightarrow> \<not> ready now w u"
  by (auto simp: half_open_def ready_def registry_avail_eq split: option.splits)

lemma half_open_cong: "rt_sw w' = rt_sw w \<Longrightarrow> half_open w' u = half_open w u"
  by (simp add: half_open_def cur_breaker_def)

interpretation stuck: runtime_kept "\<lambda>w. half_open w u" for u
proof
  fix now w v ok w'
  assume h: "half_open w u" and a: "engineHealthChecker_IsAvailable now w v = (ok, w')"
  show "half_open w' u"
  proof (cases ok)
    case True
    then have "v \<noteq> u" using half_open_not_ready [OF h] avail_cases(1) [OF a] by blast
    from a True have "engineHealthChecker_IsAvailable now w v = (True, w')" by simp
    then show ?thesis
    proof (cases rule: avail_acceptedE)
      case (breaker r cs)
      with h \<open>v \<noteq> u\<close> show ?thesis
        by (simp add: half_open_set half_open_def [of w] registry_avail_eq split: option.splits State.splits)
    qed (use h in simp)
  qed (use avail_cases(2) [OF a] h in simp)
qed simp

lemma stuck_exec: "silent_on u a \<Longrightarrow> half_open w u \<Longrightarrow> half_open (exec a w) u"
  by (cases a)
    (auto simp: stuck.routing half_open_cong [OF sw_effects] swappable_RecordSuccess_def swappable_RecordFailure_def
      probe_backend_def late_probe_def receive_gossip_def gossip_round_def cluster_metrics_tick_def discovery_noted_def
      snapshot_stored_def config_loaded_def Let_def
      case_prod_unfold half_open_set registry_eqs half_open_def [of w] cong: half_open_cong split: option.splits prod.splits)

lemma stuck_run: "list_all (silent_on u) ops \<Longrightarrow> half_open w u \<Longrightarrow> half_open (fold exec ops w) u"
  by (induction ops arbitrary: w) (simp_all add: stuck_exec)

lemma ask_until_first:
  "find (ready now w) us = Some u \<Longrightarrow> ask_until now us w = (True, snd (engineHealthChecker_IsAvailable now w u))"
proof (induction us)
  case (Cons v us)
  obtain ok w' where a: "engineHealthChecker_IsAvailable now w v = (ok, w')" by fastforce
  then show ?case using Cons avail_cases(1,2) [OF a] by (cases ok) auto
qed simp

text \<open>The trial of an open backend begins with the first yes about it, whoever asked.\<close>

lemma accepted_open:
  assumes "cur_breaker w = Some r" "breakers r u = Some br" "state br = StateOpen" "ready now w u"
  shows "half_open (snd (engineHealthChecker_IsAvailable now w u)) u"
proof -
  obtain w' where a: "engineHealthChecker_IsAvailable now w u = (True, w')"
    using avail_cases(1) [of now w u] assms(4) by (cases "engineHealthChecker_IsAvailable now w u") simp
  have "fst (registry_avail now r u)" using assms(1,4) by (simp add: ready_def)
  then have t: "snd (registry_avail now r u) = r\<lparr>breakers := (breakers r)(u \<mapsto> br\<lparr>state := StateHalfOpen\<rparr>)\<rparr>"
    using assms(2,3) by (simp add: registry_avail_eq split: if_splits)
  from a show ?thesis
    by (cases rule: avail_acceptedE) (use assms(1) t in \<open>simp_all add: a half_open_set\<close>)
qed

text \<open>
  A backend the health map calls down, whose probe goroutine starts from the verdict healthy: only a failed
  probe followed by a good one would correct the map.
\<close>

definition down_and_forgotten :: "url \<Rightarrow> world \<Rightarrow> bool" where
  "down_and_forgotten u w =
     (g_health w u = Some False \<and> (case rt_sched w of None \<Rightarrow> True | Some (s, probes) \<Rightarrow> currentHealthy (probes u)))"

fun good_for :: "url \<Rightarrow> operation \<Rightarrow> bool" where
  "good_for u (OpProbe v reply) = (v = u \<longrightarrow> two_xx reply)"
| "good_for u (OpLateProbe i reply) = False"
| "good_for u a = (\<not> rebuilds a)"

lemma down_cong:
  "g_health w' = g_health w \<Longrightarrow> rt_sched w' = rt_sched w \<Longrightarrow> down_and_forgotten u w' = down_and_forgotten u w"
  by (simp add: down_and_forgotten_def)

interpretation down: runtime_kept "down_and_forgotten u" for u
  by unfold_locales (auto simp: down_and_forgotten_def avail_frame)

lemma down_effects:
  assumes "\<forall>b x. WriteState b x \<in> set effs \<longrightarrow> b \<noteq> u"
  shows "down_and_forgotten u (fold apply_effect effs w) = down_and_forgotten u w"
  using assms
proof (induction effs arbitrary: w)
  case (Cons e effs)
  have "down_and_forgotten u (apply_effect e w) = down_and_forgotten u w"
    using Cons.prems by (cases e) (auto simp: down_and_forgotten_def stateWriter_def setHealth_def Let_def)
  moreover have "\<forall>b x. WriteState b x \<in> set effs \<longrightarrow> b \<noteq> u" using Cons.prems by simp
  ultimately show ?case using Cons.IH [of "apply_effect e w"] by simp
qed simp

lemma down_probe:
  assumes "down_and_forgotten u w" "v = u \<longrightarrow> two_xx reply"
  shows "down_and_forgotten u (probe_backend v reply w)"
proof (cases "rt_sched w")
  case (Some sp)
  obtain s probes where sp: "sp = (s, probes)" by fastforce
  obtain st' effs where t: "probe_tick (sched_cfg s) v (two_xx reply) (probes v) = (st', effs)" by fastforce
  have h: "currentHealthy (probes u)" using assms(1) Some sp by (simp add: down_and_forgotten_def)
  have "\<forall>b x. WriteState b x \<in> set effs \<longrightarrow> b \<noteq> u" and "v = u \<Longrightarrow> currentHealthy st'"
    using t h assms(2) by (auto simp: probe_tick_def Let_def split: if_splits)
  moreover from this(2) assms(1) have "down_and_forgotten u (w\<lparr>rt_sched := Some (s, probes(v := st'))\<rparr>)"
    by (simp add: down_and_forgotten_def Some sp)
  ultimately show ?thesis
    using assms(1) t by (simp add: probe_backend_def Some sp Let_def Scheduler_check_two_xx down_effects)
qed (use assms in \<open>simp add: probe_backend_def\<close>)

lemma down_exec: "good_for u a \<Longrightarrow> down_and_forgotten u w \<Longrightarrow> down_and_forgotten u (exec a w)"
  by (cases a)
    (auto simp: down.routing down_probe swappable_RecordSuccess_def swappable_RecordFailure_def receive_gossip_def
      gossip_round_def cluster_metrics_tick_def discovery_noted_def snapshot_stored_def config_loaded_def
      case_prod_unfold elim: down_cong [THEN iffD2, rotated 2] split: option.splits)

lemma down_run: "list_all (good_for u) ops \<Longrightarrow> down_and_forgotten u w \<Longrightarrow> down_and_forgotten u (fold exec ops w)"
  by (induction ops arbitrary: w) (simp_all add: down_exec)

lemma rebuild_forgets:
  assumes "buildable cfg w" "u \<in> set (map URL (new_entries cfg w))" "g_health w u = Some False"
  shows "down_and_forgotten u (rebuild cfg w)"
proof -
  obtain bal where new: "New_Balancer (Strategy (cBalancer cfg)) (new_entries cfg w) = Ok bal"
    using assms(1) by (auto simp: buildable_def)
  show ?thesis using rebuild_published(3,7) [OF new] assms(2,3) by (simp add: down_and_forgotten_def probe_init_def)
qed

lemma down_refused: "down_and_forgotten u w \<Longrightarrow> \<not> isHealthy w u \<and> \<not> ready now w u"
  by (simp add: down_and_forgotten_def isHealthy_def ready_def)

section \<open>Counting requests\<close>

definition requests_metric :: "url \<Rightarrow> string" where
  "requests_metric u = MetricName ''haribon_requests_total'' ''backend'' u"

definition requests_total :: "url \<Rightarrow> world \<Rightarrow> u64 option" where
  "requests_total u w =
     map_option (\<lambda>r. case counters r (requests_metric u) of None \<Rightarrow> 0 | Some c \<Rightarrow> c) (rt_reg w)"

lemma requests_quiet [simp]:
  "requests_total u (emit_log e w) = requests_total u w" "requests_total u (set_bal b w) = requests_total u w"
  "requests_total u (set_breaker r w) = requests_total u w"
  "requests_total u (upd_reg (MRegistry_Gauge n f) w) = requests_total u w"
  by (cases "rt_reg w"; simp add: requests_total_def emit_log_def set_bal_def set_breaker_def upd_reg_def
      MRegistry_Gauge_def split: option.split)+

lemma requests_breakerLog [simp]: "requests_total u (fold breakerLog cs w) = requests_total u w"
  by (induction cs arbitrary: w) (simp_all add: breakerLog_def Let_def split: prod.split)

lemma requests_counter:
  "requests_total u (upd_reg (MRegistry_Counter n f) w) =
     (if n = requests_metric u then map_option f (requests_total u w) else requests_total u w)"
  by (cases "rt_reg w") (auto simp: requests_total_def upd_reg_def MRegistry_Counter_def split: option.splits)

interpretation counted: runtime_kept "\<lambda>w. requests_total u w = n" for u n
proof
  fix now w v ok w'
  assume r: "requests_total u w = n" and a: "engineHealthChecker_IsAvailable now w v = (ok, w')"
  show "requests_total u w' = n"
  proof (cases ok)
    case True
    with a have "engineHealthChecker_IsAvailable now w v = (True, w')" by simp
    then show ?thesis by (cases rule: avail_acceptedE) (use r in simp_all)
  qed (use avail_cases(2) [OF a] r in simp)
qed simp

lemma requests_report [simp]: "requests_total u (swappable_RecordSuccess v w) = requests_total u w"
  by (simp add: swappable_RecordSuccess_def split: option.split prod.split)

lemma responses_other: "responses_counter v code \<noteq> requests_metric u"
  by (simp add: responses_counter_def requests_metric_def MetricName_def)

section \<open>Properties\<close>

text \<open>The minimal process after its first rebuild.\<close>

definition demo_world :: world where
  "demo_world = rebuild demo_config demo_start"

definition demo_engine :: engine where
  "demo_engine = \<lparr>e_bal = RoundRobin \<lparr>rr_backends = [\<lparr>URL = ''http://a'', Weight = 0\<rparr>], rr_counter = 0\<rparr>,
     e_breaker = Some (NewRegistry [''http://a''] 5 (30 * second) True), e_backends = [''http://a'']\<rparr>"

lemma demo_world_sw: "rt_sw demo_world = Some demo_engine"
proof -
  have e: "new_entries demo_config demo_start = [\<lparr>URL = ''http://a'', Weight = 0\<rparr>]"
    by (simp add: new_entries_def mergeEntries_eq demo_config_fields demo_start_def newRuntime_def config_entry_def)
  have "New_Balancer (Strategy (cBalancer demo_config)) (new_entries demo_config demo_start) = Ok (e_bal demo_engine)"
    unfolding e by (simp add: demo_config_fields New_Balancer_def NewRoundRobin_def demo_engine_def)
  moreover have "rt_sw demo_start = None" by (simp add: demo_start_def newRuntime_def)
  moreover have "bc_FailureThreshold (cBreaker demo_config) = 5" "bc_CooldownSec (cBreaker demo_config) = 30"
    by (simp_all add: demo_config_def Defaults_def default_breaker_def zero_Config_def)
  ultimately show ?thesis
    using rebuild_published(1) [of demo_config demo_start] by (simp add: demo_world_def e demo_engine_def seconds_small)
qed

lemma demo_world_inv: "world_inv demo_world"
proof -
  have "world_wf demo_world"
    unfolding demo_world_def
    by (rule world_wf_rebuild)
      (use demo_start_inv in \<open>simp_all add: world_inv_def demo_config_fields demo_start_def newRuntime_def\<close>)
  with demo_start_inv show ?thesis by (simp add: world_inv_def demo_world_def)
qed

lemma demo_world_health: "g_health demo_world = Map.empty" "rt_node demo_world = None" "g_backends demo_world = [''http://a'']"
proof -
  obtain bal where "New_Balancer (Strategy (cBalancer demo_config)) (new_entries demo_config demo_start) = Ok bal"
    using demo_buildable by (auto simp: buildable_def)
  from rebuild_published(2-4) [OF this] demo_pool
  show "g_health demo_world = Map.empty" "rt_node demo_world = None" "g_backends demo_world = [''http://a'']"
    by (simp_all add: demo_world_def demo_start_def newRuntime_def fun_eq_iff)
qed

text \<open>
  C6: which backend a request gets. On a well-formed runtime, whatever the strategy, \<open>NextForIP\<close> returns a
  backend of the published pool that the local health map, the cluster view and the circuit breaker all
  call usable; it fails only when no backend of the pool is usable, and it does not panic as long as the
  rotation counter is below the top half of its range.
\<close>

theorem runtime_serves:
  assumes "world_inv w" "rt_sw w = Some e" "Balancer_fits (e_bal e)"
  shows "case fst (swappable_NextForIP rnd now ip w) of
       Ok u \<Rightarrow> u \<in> set (getBackends w) \<and> isHealthy w u \<and> node_agrees now w u \<and> ready now w u
     | Fail err \<Rightarrow> err = ErrNoHealthyBackend \<and> list_all (\<lambda>u. \<not> ready now w u) (getBackends w)
     | Panic \<Rightarrow> False"
proof -
  have "world_wf w" using assms(1) by (simp add: world_inv_def)
  from pick_NextForIP [OF this assms(2,3), of rnd now ip] show ?thesis
    by (auto simp: getBackends_def list_all_iff ready_def split: go.split)
qed

theorem runtime_serves_witness:
  "fst (swappable_NextForIP (\<lambda>t. 0) 0 ''1.2.3.4'' demo_world) = Ok ''http://a''"
proof -
  have r: "ready 0 demo_world ''http://a''"
    by (simp add: ready_def isHealthy_def node_agrees_def demo_world_health cur_breaker_def demo_world_sw demo_engine_def
        registry_avail_eq NewRegistry_apply new_breaker_def)
  have "Balancer_fits (e_bal demo_engine)" by (simp add: demo_engine_def)
  from runtime_serves [OF demo_world_inv demo_world_sw this, where rnd = "\<lambda>t. 0" and now = 0 and ip = "''1.2.3.4''"] r show ?thesis
    by (auto simp: getBackends_def demo_world_health split: go.splits)
qed

text \<open>
  Whole requests keep the runtime's invariant: during each upstream call and each back-off, the other
  goroutines may perform any operations.
\<close>

lemma request_keeps_runtime:
  assumes "world_inv w" and "\<forall>n. list_all op_ok (during n)" and "\<forall>n. list_all op_ok (sleeping n)"
    and "env_during env = (\<lambda>n. fold exec (during n))" and "env_backoff env = (\<lambda>n. fold exec (sleeping n))"
  shows "world_inv (fst (snd (ServeHTTP (production_handler rnd cfg) env r w)))"
proof -
  have "peaceful world_inv (\<lambda>u. world_inv) env"
    using assms(2-5) by (simp add: peaceful_def world_inv_run)
  then show ?thesis using assms(1) by (intro host.serve_idle)
qed

definition world_env :: "(nat \<Rightarrow> response option) \<Rightarrow> (nat \<Rightarrow> operation list) \<Rightarrow> world env" where
  "world_env answer ops = \<lparr>env_start = 0, env_end = 0, env_clock = (\<lambda>n p. 0), env_newreq = (\<lambda>m u. True),
     env_do = (\<lambda>n req. answer n), env_during = (\<lambda>n. fold exec (ops n)), env_backoff = (\<lambda>n. fold exec (ops n))\<rparr>"

lemma demo_world_ready: "ready 0 demo_world ''http://a''"
  by (simp add: ready_def isHealthy_def node_agrees_def demo_world_health cur_breaker_def demo_world_sw demo_engine_def
      registry_avail_eq NewRegistry_apply new_breaker_def)

lemma demo_world_pick: "fst (swappable_NextForIP rnd 0 ip demo_world) = Ok ''http://a''"
proof -
  have "world_wf demo_world" "Balancer_fits (e_bal demo_engine)"
    using demo_world_inv by (simp_all add: world_inv_def demo_engine_def)
  from pick_NextForIP [OF this(1) demo_world_sw this(2), where rnd = rnd and now = 0 and ip = ip] demo_world_ready
  show ?thesis by (cases "fst (swappable_NextForIP rnd 0 ip demo_world)") (auto simp: demo_world_health)
qed

lemma demo_world_held: "rotates demo_world" "\<not> half_open demo_world u"
  by (simp_all add: rotates_def half_open_def cur_breaker_def demo_world_sw demo_engine_def rotating_def
      NewRegistry_apply new_breaker_def)



text \<open>
  A whole request gives back the slot it takes. With a rotating strategy, if before the request every
  half-open backend is on trial by one of the requests \<open>F\<close>, and the other goroutines only probe, gossip,
  count and log meanwhile, then the same holds after it: the slot its own attempts took, on any server and
  with any outcome, has been returned.
\<close>

theorem request_returns_slot:
  assumes "held F w"
    and "\<forall>n. list_all (\<lambda>a. background a \<and> \<not> rebuilds a) (ops n)"
    and "env_during env = (\<lambda>n. fold exec (ops n))" and "env_backoff env = (\<lambda>n. fold exec (ops n))"
  shows "held F (fst (snd (ServeHTTP (production_handler rnd cfg) env r w)))"
proof -
  have step: "held G (exec a v)" if "held G v" "background a" "\<not> rebuilds a" for G a v
  proof (cases "\<exists>u. a = OpDone u")
    case False
    then have "rt_sw (exec a v) = rt_sw v" using sw_background that(2,3) by blast
    then show ?thesis using that(1) slots_cong by blast
  qed (use that(1) held_Done in auto)
  have "held G (fold exec as v)" if "held G v" "list_all (\<lambda>a. background a \<and> \<not> rebuilds a) as" for G as v
    using that by (induction as arbitrary: v) (simp_all add: step)
  then have "peaceful (held F) (\<lambda>u. held (add_mset u F)) env"
    using assms(2-4) by (simp add: peaceful_def)
  then show ?thesis using assms(1) by (intro trial.serve_idle)
qed

theorem request_returns_slot_witness:
  "held {#} (fst (snd (ServeHTTP (production_handler (\<lambda>t. 0) demo_config)
      (world_env (\<lambda>n. None) (\<lambda>n. [OpProbe ''http://a'' None])) (demo_request ''GET'') demo_world)))"
  by (rule request_returns_slot [of _ _ "\<lambda>n. [OpProbe ''http://a'' None]"])
    (simp_all add: world_env_def held_def demo_world_held)

text \<open>
  C38: the readiness probe can take a backend out of service. If the first usable backend of the pool is one
  whose breaker is open with the cooldown over, \<open>/readyz\<close> answers ready and thereby takes its trial slot
  without sending a request. Nobody reports on that trial, and until a report on that backend or a
  rebuild the backend is refused at every later time, whatever else happens.
\<close>

theorem readyz_loses_backend:
  assumes "find (ready now w) (swappable_Backends w) = Some u"
    and "cur_breaker w = Some r" "breakers r u = Some br" "state br = StateOpen"
    and "list_all (silent_on u) ops"
  shows "fst (swappable_HasHealthyBackend now w)
     \<and> \<not> ready t (fold exec ops (snd (swappable_HasHealthyBackend now w))) u"
proof -
  obtain e where e: "rt_sw w = Some e" using assms(2) by (auto simp: cur_breaker_def split: option.splits)
  have "ready now w u" using assms(1) by (auto dest: find_SomeD)
  then have "half_open (snd (engineHealthChecker_IsAvailable now w u)) u"
    using accepted_open assms(2-4) by blast
  then have "\<not> ready t (fold exec ops (snd (engineHealthChecker_IsAvailable now w u))) u"
    using stuck_run [OF assms(5)] half_open_not_ready by blast
  moreover have "swappable_HasHealthyBackend now w = (True, snd (engineHealthChecker_IsAvailable now w u))"
    using ask_until_first assms(1) e by (auto simp: swappable_HasHealthyBackend_def swappable_Backends_def)
  ultimately show ?thesis by simp
qed

definition demo_open :: world where
  "demo_open = set_breaker \<lparr>breakers = [''http://a'' \<mapsto>
     (new_breaker 5 (30 * second) True ''http://a'')\<lparr>state := StateOpen\<rparr>]\<rparr> demo_world"

theorem readyz_loses_backend_witness:
  "\<not> ready (90 * second) (fold exec [OpNextForIP (\<lambda>t. 0) (60 * second) ''1.2.3.4'', OpReadyz (61 * second)]
       (snd (swappable_HasHealthyBackend (30 * second) demo_open))) ''http://a''"
proof -
  let ?br = "(new_breaker 5 (30 * second) True ''http://a'')\<lparr>state := StateOpen\<rparr>"
  have c: "cur_breaker demo_open = Some \<lparr>breakers = [''http://a'' \<mapsto> ?br]\<rparr>"
    by (simp add: demo_open_def cur_breaker_def set_breaker_def demo_world_sw)
  have f: "find (ready (30 * second) demo_open) (swappable_Backends demo_open) = Some ''http://a''"
    by (simp add: swappable_Backends_def demo_open_def set_breaker_def demo_world_sw demo_engine_def ready_def
        isHealthy_def node_agrees_def demo_world_health cur_breaker_def registry_avail_eq new_breaker_def)
  from readyz_loses_backend [OF f c, of ?br "[OpNextForIP (\<lambda>t. 0) (60 * second) ''1.2.3.4'', OpReadyz (61 * second)]"
      "90 * second"]
  show ?thesis by simp
qed

text \<open>
  C39: a recovered backend can stay out of service. A rebuild keeps the health map but restarts the probe
  goroutines, which start from the verdict healthy and only write a change of verdict. So a backend that
  was down before the rebuild and answers every probe after it is refused, whatever else happens, until a
  probe fails, a probe of the stopped scheduler writes once more, or the engine is rebuilt again.
\<close>

theorem recovered_backend_stays_down:
  assumes "buildable cfg w" "u \<in> set (map URL (new_entries cfg w))" "g_health w u = Some False"
    and "list_all (good_for u) ops"
  shows "\<not> isHealthy (fold exec ops (rebuild cfg w)) u \<and> \<not> ready now (fold exec ops (rebuild cfg w)) u"
  using down_refused [OF down_run [OF assms(4) rebuild_forgets [OF assms(1-3)]]] .

theorem recovered_backend_stays_down_witness:
  "\<not> isHealthy (fold exec [OpProbe ''http://a'' (Some 200), OpProbe ''http://a'' (Some 204)]
     (rebuild (demo_config\<lparr>cHealth := (cHealth demo_config)\<lparr>hc_Enabled := True\<rparr>\<rparr>) (setHealth ''http://a'' False demo_world)))
     ''http://a''"
proof -
  let ?c = "demo_config\<lparr>cHealth := (cHealth demo_config)\<lparr>hc_Enabled := True\<rparr>\<rparr>"
  let ?w = "setHealth ''http://a'' False demo_world"
  have u: "''http://a'' \<in> set (map URL (new_entries ?c ?w))" unfolding set_new_entries by (simp add: demo_config_fields)
  then have "new_entries ?c ?w \<noteq> []" by auto
  then have "buildable ?c ?w" by (simp add: buildable_def New_Balancer_iff demo_config_fields strategies_def)
  from recovered_backend_stays_down [OF this u, of "[OpProbe ''http://a'' (Some 200), OpProbe ''http://a'' (Some 204)]"]
  show ?thesis by (simp add: setHealth_def two_xx_def)
qed

text \<open>
  A successful request is counted twice. The proxy increments \<open>haribon_requests_total\<close> of the backend
  when it picks it, and the log callback increments the same counter again for a reply with a 2xx status:
  one request answered by its first backend raises the counter by two.
\<close>

theorem requests_counted_twice:
  fixes rnd cfg
  defines "h \<equiv> production_handler rnd cfg"
  assumes "swappable_NextForIP rnd (env_clock env 0 AtPick) (client_ip r) w = (Ok u, w1)" and "0 < max_attempts h r"
    and "env_newreq env (rq_Method r) (u @ rq_URI r)" and "env_during env 0 = id"
    and "env_do env 0 (request_for h r u) = Some resp" and "200 \<le> StatusCode resp" "StatusCode resp < 300"
  shows "requests_total u (fst (snd (ServeHTTP h env r w))) = map_option ((+) 2) (requests_total u w)"
proof -
  have p: "pickBackend h (env_clock env 0 AtPick) (client_ip r) w = (Ok u, w1)" using assms(2) by (simp add: h_def)
  have s: "\<not> retryableStatus (StatusCode resp)" using assms(8) by (simp add: retryableStatus_def)
  have w1: "requests_total u w1 = requests_total u w"
    using counted.NextForIP [OF refl, where w = w and rnd = rnd and now = "env_clock env 0 AtPick" and ip = "client_ip r"]
      assms(2) by simp
  have d: "requests_total u (swappable_Done u v) = requests_total u v" for v by (rule counted.Done [OF refl])
  show ?thesis
    unfolding serve_first_answer(2) [OF p assms(3,4,6) s]
    using assms(5,7,8)
    by (simp add: deliver_def h_def Let_def report_success_def handler_count valid_code_def makeProxyLogger_def
        requests_counter responses_other d w1 option.map_comp comp_def Counter_Inc_def flip: requests_metric_def)
qed

theorem requests_counted_twice_witness:
  "requests_total ''http://a'' (fst (snd (ServeHTTP (production_handler (\<lambda>t. 0) demo_config)
      (world_env (\<lambda>n. Some \<lparr>StatusCode = 200, RespHeader = Map.empty, RespBody = ''''\<rparr>) (\<lambda>n. []))
      (demo_request ''POST'') demo_world)))
   = map_option ((+) 2) (requests_total ''http://a'' demo_world)"
proof -
  let ?env = "world_env (\<lambda>n. Some \<lparr>StatusCode = 200, RespHeader = Map.empty, RespBody = ''''\<rparr>) (\<lambda>n. [])"
  obtain w1 where "swappable_NextForIP (\<lambda>t. 0) (env_clock ?env 0 AtPick) (client_ip (demo_request ''POST'')) demo_world
      = (Ok ''http://a'', w1)"
    using demo_world_pick by (metis prod.collapse env.select_convs(3) world_env_def)
  from requests_counted_twice [OF this, of demo_config] show ?thesis
    by (simp add: max_attempts_def demo_request_def idempotentMethod_def world_env_def id_def)
qed

end
