(* ===== verification/Schema.thy ===== *)
theory Schema
  imports Prelude Complex_Main
begin

text \<open>
  The schema validator of \<^verbatim>\<open>internal/config/schema.go\<close>. A value of Go type \<^verbatim>\<open>interface{}\<close>, as the JSON and YAML
  decoders build it, is a \<open>json\<close>; a \<^verbatim>\<open>map\<close> is the list of its entries in the order Go iterates over it. The
  decoders, the file system and the formatting verbs \<^verbatim>\<open>%v\<close> and \<^verbatim>\<open>%q\<close> are arguments. Comparing two slices or
  two maps with \<^verbatim>\<open>==\<close> panics, so the validator returns \<open>None\<close> there.
\<close>

section \<open>Values\<close>

text \<open>A \<^verbatim>\<open>float64\<close>, and the conversion of an integer, which rounds to 53 significant bits, ties to even.\<close>

datatype float64 = FFin rat | FPosInf | FNegInf | FNaN

fun bit_length :: "nat \<Rightarrow> nat" where
  "bit_length n = (if n = 0 then 0 else Suc (bit_length (n div 2)))"

definition round53 :: "int \<Rightarrow> int" where
  "round53 n =
     (let a = nat \<bar>n\<bar> in
      if a < 2 ^ 53 then n
      else let e = bit_length a - 53; q = a div 2 ^ e; r = a mod 2 ^ e;
               q' = (if 2 * r > 2 ^ e \<or> 2 * r = 2 ^ e \<and> odd q then q + 1 else q)
           in sgn n * int (q' * 2 ^ e))"

fun float_less :: "float64 \<Rightarrow> float64 \<Rightarrow> bool" where
  "float_less (FFin a) (FFin b) = (a < b)"
| "float_less (FFin a) FPosInf = True"
| "float_less FNegInf (FFin b) = True"
| "float_less FNegInf FPosInf = True"
| "float_less _ _ = False"

definition float_eq :: "float64 \<Rightarrow> float64 \<Rightarrow> bool" where
  "float_eq a b = (a = b \<and> a \<noteq> FNaN)"

text \<open>\<^verbatim>\<open>n == float64(int64(n))\<close>; out of the range of \<^verbatim>\<open>int64\<close> the conversion yields its least value.\<close>

fun float_integral :: "float64 \<Rightarrow> bool" where
  "float_integral (FFin q) = (of_int \<lfloor>q\<rfloor> = q \<and> - (2 ^ 63) \<le> q \<and> q < 2 ^ 63)"
| "float_integral _ = False"

datatype json =
    JNull
  | JBool bool
  | JString string
  | JInt int
  | JInt64 int
  | JUint64 int
  | JFloat float64
  | JArray "json list"
  | JObject "(string \<times> json) list"
  | JMap "(json \<times> json) list"

type_synonym object = "(string \<times> json) list"

section \<open>Locating and normalising\<close>

definition SchemaPaths :: "string list" where
  "SchemaPaths =
     [''schema/haribon-config.schema.json'', ''../schema/haribon-config.schema.json'',
      ''../../schema/haribon-config.schema.json'', ''/etc/haribon/haribon-config.schema.json'']"

text \<open>\<open>stat\<close> says whether \<^verbatim>\<open>os.Stat\<close> finds the file.\<close>

definition FindSchema :: "(string \<Rightarrow> bool) \<Rightarrow> string \<Rightarrow> string" where
  "FindSchema stat explicit =
     (if explicit \<noteq> '''' then if stat explicit then explicit else ''''
      else case find stat SchemaPaths of Some p \<Rightarrow> p | None \<Rightarrow> '''')"

definition put_all :: "(string \<times> json) list \<Rightarrow> object" where
  "put_all kvs = fold (\<lambda>(k, v) m. AList.update k v m) kvs []"

lemma json_size [termination_simp]:
  "x \<in> set xs \<Longrightarrow> size x < Suc (size_list size xs)"
  "(k, x) \<in> set kvs \<Longrightarrow> size x < Suc (size_list (size_prod (\<lambda>_. 0) size) kvs)"
  "(j, x) \<in> set jvs \<Longrightarrow> size x < Suc (size_list (size_prod size size) jvs)"
  "map_of kvs k = Some x \<Longrightarrow> size x < Suc (size_list (size_prod (\<lambda>_. 0) size) kvs)"
  by (force dest!: map_of_SomeD simp: size_list_estimation' less_Suc_eq_le intro: size_list_estimation')+

text \<open>\<open>sprint\<close> is \<^verbatim>\<open>fmt.Sprint\<close> on a key.\<close>

function normalizeYAML :: "(json \<Rightarrow> string) \<Rightarrow> json \<Rightarrow> json" where
  "normalizeYAML sprint v =
     (case v of
        JMap kvs \<Rightarrow> JObject (put_all (map (\<lambda>(k, x). (sprint k, normalizeYAML sprint x)) kvs))
      | JObject kvs \<Rightarrow> JObject (put_all (map (\<lambda>(k, x). (k, normalizeYAML sprint x)) kvs))
      | JArray xs \<Rightarrow> JArray (map (normalizeYAML sprint) xs)
      | _ \<Rightarrow> v)"
  by pat_completeness auto
termination
  by (relation "measure (\<lambda>(sprint, v). size v)") (auto simp: termination_simp)

declare normalizeYAML.simps [simp del]

section \<open>Checks of one node\<close>

definition numeric :: "json \<Rightarrow> float64 option" where
  "numeric v =
     (case v of
        JInt n \<Rightarrow> Some (FFin (of_int (round53 n)))
      | JInt64 n \<Rightarrow> Some (FFin (of_int (round53 n)))
      | JFloat f \<Rightarrow> Some f
      | _ \<Rightarrow> None)"

definition typeMatches :: "string \<Rightarrow> json \<Rightarrow> bool" where
  "typeMatches want v =
     (if want = ''object'' then (case v of JObject _ \<Rightarrow> True | _ \<Rightarrow> False)
      else if want = ''array'' then (case v of JArray _ \<Rightarrow> True | _ \<Rightarrow> False)
      else if want = ''string'' then (case v of JString _ \<Rightarrow> True | _ \<Rightarrow> False)
      else if want = ''boolean'' then (case v of JBool _ \<Rightarrow> True | _ \<Rightarrow> False)
      else if want = ''integer'' then
        (case v of JInt _ \<Rightarrow> True | JInt64 _ \<Rightarrow> True | JFloat f \<Rightarrow> float_integral f | _ \<Rightarrow> False)
      else if want = ''number'' then numeric v \<noteq> None
      else if want = ''null'' then v = JNull
      else True)"

definition jsonTypeName :: "json \<Rightarrow> string" where
  "jsonTypeName v =
     (case v of
        JNull \<Rightarrow> ''null'' | JBool _ \<Rightarrow> ''boolean'' | JString _ \<Rightarrow> ''string'' | JInt _ \<Rightarrow> ''integer'' | JInt64 _ \<Rightarrow> ''integer''
      | JFloat _ \<Rightarrow> ''number'' | JArray _ \<Rightarrow> ''array'' | JObject _ \<Rightarrow> ''object''
      | JUint64 _ \<Rightarrow> ''uint64'' | JMap _ \<Rightarrow> ''map[interface {}]interface {}'')"

text \<open>\<^verbatim>\<open>==\<close> on \<^verbatim>\<open>interface{}\<close>: equal dynamic types and values; a panic on two slices or two maps.\<close>

fun interface_eq :: "json \<Rightarrow> json \<Rightarrow> bool option" where
  "interface_eq (JArray _) (JArray _) = None"
| "interface_eq (JObject _) (JObject _) = None"
| "interface_eq (JMap _) (JMap _) = None"
| "interface_eq (JFloat a) (JFloat b) = Some (float_eq a b)"
| "interface_eq a b = Some (a = b)"

fun enumContains :: "json list \<Rightarrow> json \<Rightarrow> bool option" where
  "enumContains [] v = Some False"
| "enumContains (e # es) v =
     (case interface_eq e v of
        None \<Rightarrow> None
      | Some True \<Rightarrow> Some True
      | Some False \<Rightarrow>
          (case (numeric e, numeric v) of
             (Some en, Some vn) \<Rightarrow> if float_eq en vn then Some True else enumContains es v
           | _ \<Rightarrow> enumContains es v))"

definition joinPath :: "string \<Rightarrow> string \<Rightarrow> string" where
  "joinPath parent key = (if parent = '''' then key else parent @ ''.'' @ key)"

text \<open>The problems reported, with what \<^verbatim>\<open>fmt.Sprintf\<close> puts into each of them.\<close>

datatype problem =
    ExpectedType string string string
  | NotInEnum string json "json list"
  | BelowMinimum string float64 float64
  | AboveMaximum string float64 float64
  | MissingKey string string
  | UnknownKeys string "string list"

definition range_problems :: "string \<Rightarrow> json \<Rightarrow> object \<Rightarrow> problem list" where
  "range_problems place v s =
     (case numeric v of
        None \<Rightarrow> []
      | Some n \<Rightarrow>
          (case Option.bind (map_of s ''minimum'') numeric of
             Some lo \<Rightarrow> if \<not> float_eq n (FFin 0) \<and> float_less n lo then [BelowMinimum place n lo] else []
           | None \<Rightarrow> [])
          @ (case Option.bind (map_of s ''maximum'') numeric of
               Some hi \<Rightarrow> if float_less hi n then [AboveMaximum place n hi] else []
             | None \<Rightarrow> []))"

definition as_object :: "json \<Rightarrow> object option" where
  "as_object v = (case v of JObject o' \<Rightarrow> Some o' | _ \<Rightarrow> None)"

definition properties_of :: "object \<Rightarrow> object" where
  "properties_of s = (case Option.bind (map_of s ''properties'') as_object of Some p \<Rightarrow> p | None \<Rightarrow> [])"

text \<open>\<^verbatim>\<open>name, _ := r.(string)\<close>\<close>

definition key_name :: "json \<Rightarrow> string" where
  "key_name r = (case r of JString n \<Rightarrow> n | _ \<Rightarrow> '''')"

definition required_problems :: "string \<Rightarrow> object \<Rightarrow> object \<Rightarrow> problem list" where
  "required_problems place obj s =
     (case map_of s ''required'' of
        Some (JArray rs) \<Rightarrow>
          concat (map (\<lambda>r. if map_of obj (key_name r) = None then [MissingKey place (key_name r)] else []) rs)
      | _ \<Rightarrow> [])"

definition unknown_problems :: "string \<Rightarrow> object \<Rightarrow> object \<Rightarrow> problem list" where
  "unknown_problems place obj s =
     (case map_of s ''additionalProperties'' of
        Some (JBool False) \<Rightarrow>
          let unknown = filter (\<lambda>key. map_of (properties_of s) key = None) (map fst obj)
          in if unknown \<noteq> [] then [UnknownKeys place (sort unknown)] else []
      | _ \<Rightarrow> [])"

definition type_of :: "object \<Rightarrow> string option" where
  "type_of s = (case map_of s ''type'' of Some (JString want) \<Rightarrow> Some want | _ \<Rightarrow> None)"

definition enum_of :: "object \<Rightarrow> json list option" where
  "enum_of s = (case map_of s ''enum'' of Some (JArray es) \<Rightarrow> Some es | _ \<Rightarrow> None)"

definition items_of :: "object \<Rightarrow> object option" where
  "items_of s = Option.bind (map_of s ''items'') as_object"

definition type_fails :: "json \<Rightarrow> object \<Rightarrow> bool" where
  "type_fails v s = (case type_of s of Some want \<Rightarrow> \<not> typeMatches want v | None \<Rightarrow> False)"

definition enum_fails :: "json \<Rightarrow> object \<Rightarrow> bool option" where
  "enum_fails v s = (case enum_of s of Some es \<Rightarrow> map_option Not (enumContains es v) | None \<Rightarrow> Some False)"

section \<open>The validator\<close>

text \<open>Problems of a list of nodes, in order; a panic in one of them is a panic.\<close>

fun collect :: "('a \<Rightarrow> 'b list option) \<Rightarrow> 'a list \<Rightarrow> 'b list option" where
  "collect f [] = Some []"
| "collect f (x # xs) =
     (case f x of None \<Rightarrow> None | Some ps \<Rightarrow> map_option (append ps) (collect f xs))"

lemma collect_cong [fundef_cong]: "xs = ys \<Longrightarrow> (\<And>x. x \<in> set ys \<Longrightarrow> f x = g x) \<Longrightarrow> collect f xs = collect g ys"
  by (induction ys arbitrary: xs) (auto split: option.split)

definition place_of :: "string \<Rightarrow> string" where
  "place_of path = (if path = '''' then ''(root)'' else path)"

definition item_path :: "string \<Rightarrow> nat \<Rightarrow> string" where
  "item_path path i = path @ ''['' @ itoa (int i) @ '']''"

lemma map_of_size [termination_simp]:
  assumes "map_of kvs k = Some x"
  shows "size x < Suc (size_list (\<lambda>y. Suc (size (snd y))) kvs)"
  using map_of_SomeD [OF assms] by (induction kvs) auto

lemma enumerate_size [termination_simp]: "(i, x) \<in> set (List.enumerate n xs) \<Longrightarrow> size x < Suc (size_list size xs)"
  by (auto simp: in_set_enumerate_eq termination_simp)

function validateNode :: "string \<Rightarrow> json \<Rightarrow> object option \<Rightarrow> problem list option" where
  "validateNode path v schema =
     (case schema of
        None \<Rightarrow> Some []
      | Some s \<Rightarrow>
          if type_fails v s then Some [ExpectedType (place_of path) (the (type_of s)) (jsonTypeName v)]
          else if enum_fails v s = None then None
          else if enum_fails v s = Some True then Some [NotInEnum (place_of path) v (the (enum_of s))]
          else
            (case (case v of
                     JObject obj \<Rightarrow>
                       collect (\<lambda>(key, sub).
                          case map_of obj key of
                            None \<Rightarrow> Some []
                          | Some child \<Rightarrow> validateNode (joinPath path key) child (as_object sub)) (properties_of s)
                   | JArray arr \<Rightarrow>
                       (case items_of s of
                          None \<Rightarrow> Some []
                        | Some item \<Rightarrow>
                            collect (\<lambda>(i, x). validateNode (item_path path i) x (Some item)) (List.enumerate 0 arr))
                   | _ \<Rightarrow> Some []) of
               None \<Rightarrow> None
             | Some below \<Rightarrow>
                 Some (range_problems (place_of path) v s
                   @ (case v of JObject obj \<Rightarrow> required_problems (place_of path) obj s | _ \<Rightarrow> [])
                   @ below
                   @ (case v of JObject obj \<Rightarrow> unknown_problems (place_of path) obj s | _ \<Rightarrow> []))))"
  by pat_completeness auto
termination
  by (relation "measure (\<lambda>(path, v, s). size v)") (auto simp: termination_simp)

declare validateNode.simps [simp del]

section \<open>Entry points\<close>

record formatter =
  fmt_v :: "json \<Rightarrow> string"
  fmt_q :: "string \<Rightarrow> string"

definition enumString :: "formatter \<Rightarrow> json list \<Rightarrow> string" where
  "enumString f es = join '', '' (map (fmt_v f) es)"

fun problem_text :: "formatter \<Rightarrow> problem \<Rightarrow> string" where
  "problem_text f (ExpectedType p want got) = p @ '': expected '' @ want @ '', got '' @ got"
| "problem_text f (NotInEnum p v es) = p @ '': '' @ fmt_v f v @ '' is not one of '' @ enumString f es"
| "problem_text f (BelowMinimum p n lo) = p @ '': '' @ fmt_v f (JFloat n) @ '' is below the minimum of '' @ fmt_v f (JFloat lo)"
| "problem_text f (AboveMaximum p n hi) = p @ '': '' @ fmt_v f (JFloat n) @ '' is above the maximum of '' @ fmt_v f (JFloat hi)"
| "problem_text f (MissingKey p name) = p @ '': missing required key '' @ fmt_q f name"
| "problem_text f (UnknownKeys p keys) = p @ '': unknown key(s) '' @ join '', '' keys"

datatype schema_error =
    ReadSchema string
  | ParseSchema string
  | ReadConfig string
  | ParseConfig string
  | Problems string

definition report_problems :: "formatter \<Rightarrow> problem list option \<Rightarrow> (schema_error, unit) go" where
  "report_problems f ps =
     (case ps of
        None \<Rightarrow> Panic
      | Some qs \<Rightarrow> if qs \<noteq> [] then Fail (Problems (join ''; '' (sort (map (problem_text f) qs)))) else Ok ())"

text \<open>
  \<open>read\<close> reads a file, \<open>json_Unmarshal\<close> decodes into a \<^verbatim>\<open>map[string]interface{}\<close> (the JSON value \<^verbatim>\<open>null\<close> gives a
  \<^verbatim>\<open>nil\<close> map) and \<open>yaml_decode\<close> into an \<^verbatim>\<open>interface{}\<close>.
\<close>

definition ValidateAgainstSchema :: "formatter \<Rightarrow> (string \<Rightarrow> string option) \<Rightarrow> (string \<Rightarrow> object option option)
    \<Rightarrow> (string \<Rightarrow> json option) \<Rightarrow> string \<Rightarrow> string \<Rightarrow> (schema_error, unit) go" where
  "ValidateAgainstSchema f read json_Unmarshal yaml_decode schemaPath configPath =
     (case read schemaPath of
        None \<Rightarrow> Fail (ReadSchema schemaPath)
      | Some rawSchema \<Rightarrow>
          (case json_Unmarshal rawSchema of
             None \<Rightarrow> Fail (ParseSchema schemaPath)
           | Some schema \<Rightarrow>
               (case read configPath of
                  None \<Rightarrow> Fail (ReadConfig configPath)
                | Some rawCfg \<Rightarrow>
                    (case yaml_decode rawCfg of
                       None \<Rightarrow> Fail (ParseConfig configPath)
                     | Some doc \<Rightarrow>
                         report_problems f (validateNode '''' (normalizeYAML (fmt_v f) doc) schema)))))"

definition ValidateDocumentAgainstSchema :: "formatter \<Rightarrow> (string \<Rightarrow> string option) \<Rightarrow> (string \<Rightarrow> object option option)
    \<Rightarrow> string \<Rightarrow> object \<Rightarrow> (schema_error, unit) go" where
  "ValidateDocumentAgainstSchema f read json_Unmarshal schemaPath doc =
     (case read schemaPath of
        None \<Rightarrow> Fail (ReadSchema schemaPath)
      | Some rawSchema \<Rightarrow>
          (case json_Unmarshal rawSchema of
             None \<Rightarrow> Fail (ParseSchema schemaPath)
           | Some schema \<Rightarrow> report_problems f (validateNode '''' (normalizeYAML (fmt_v f) (JObject doc)) schema)))"

section \<open>Specification vocabulary\<close>


definition below :: "string \<Rightarrow> json \<Rightarrow> object \<Rightarrow> (string \<times> json \<times> object) list" where
  "below path v s =
     (case v of
        JObject obj \<Rightarrow>
          List.map_filter (\<lambda>(key, sub).
            case (map_of obj key, as_object sub) of
              (Some child, Some sch) \<Rightarrow> Some (joinPath path key, child, sch)
            | _ \<Rightarrow> None) (properties_of s)
      | JArray arr \<Rightarrow>
          (case items_of s of
             None \<Rightarrow> []
           | Some item \<Rightarrow> map (\<lambda>(i, x). (item_path path i, x, item)) (List.enumerate 0 arr))
      | _ \<Rightarrow> [])"

text \<open>The pairs of a document node and a schema node the validator compares.\<close>

inductive visits :: "string \<Rightarrow> json \<Rightarrow> object \<Rightarrow> string \<Rightarrow> json \<Rightarrow> object \<Rightarrow> bool" where
  here: "visits p v s p v s"
| down: "\<not> type_fails v s \<Longrightarrow> enum_fails v s = Some False \<Longrightarrow> (p1, v1, s1) \<in> set (below p v s)
    \<Longrightarrow> visits p1 v1 s1 p' v' s' \<Longrightarrow> visits p v s p' v' s'"

inductive_cases visitsE: "visits p v s p' v' s'"





section \<open>Lemmas\<close>



lemma validateNode_None [simp]: "validateNode path v None = Some []"
  by (subst validateNode.simps) simp

lemma collect_map: "collect g (map h xs) = collect (\<lambda>x. g (h x)) xs"
  by (induction xs) (auto split: option.split)

lemma collect_map_filter:
  "collect g (List.map_filter h xs) = collect (\<lambda>x. case h x of None \<Rightarrow> Some [] | Some y \<Rightarrow> g y) xs"
proof (induction xs)
  case (Cons x xs)
  then show ?case
    by (cases "h x"; cases "collect (\<lambda>x. case h x of None \<Rightarrow> Some [] | Some y \<Rightarrow> g y) xs")
      (simp_all add: map_filter_simps split: option.split)
qed (simp add: map_filter_simps)

text \<open>One node: its own problems and those of the nodes below.\<close>

lemma validate_below:
  "(case v of
      JObject obj \<Rightarrow>
        collect (\<lambda>(key, sub).
           case map_of obj key of
             None \<Rightarrow> Some []
           | Some child \<Rightarrow> validateNode (joinPath path key) child (as_object sub)) (properties_of s)
    | JArray arr \<Rightarrow>
        (case items_of s of
           None \<Rightarrow> Some []
         | Some item \<Rightarrow> collect (\<lambda>(i, x). validateNode (item_path path i) x (Some item)) (List.enumerate 0 arr))
    | _ \<Rightarrow> Some [])
   = collect (\<lambda>(p, x, t). validateNode p x (Some t)) (below path v s)"
  by (auto simp: below_def collect_map collect_map_filter intro!: collect_cong split: json.split option.split)

lemma validateNode_eq:
  "validateNode path v (Some s) =
     (if type_fails v s then Some [ExpectedType (place_of path) (the (type_of s)) (jsonTypeName v)]
      else if enum_fails v s = None then None
      else if enum_fails v s = Some True then Some [NotInEnum (place_of path) v (the (enum_of s))]
      else map_option (\<lambda>ps. range_problems (place_of path) v s
             @ (case v of JObject obj \<Rightarrow> required_problems (place_of path) obj s | _ \<Rightarrow> [])
             @ ps
             @ (case v of JObject obj \<Rightarrow> unknown_problems (place_of path) obj s | _ \<Rightarrow> []))
           (collect (\<lambda>(p, x, t). validateNode p x (Some t)) (below path v s)))"
  by (subst validateNode.simps, subst validate_below) (simp add: map_option_case)



























section \<open>Properties\<close>






lemmas node_defs = type_fails_def enum_fails_def type_of_def enum_of_def items_of_def properties_of_def
  as_object_def typeMatches_def numeric_def range_problems_def required_problems_def unknown_problems_def key_name_def
  below_def map_filter_simps place_of_def joinPath_def






text \<open>
  What the validator lets through. A keyword other than the eight supported ones has no effect wherever
  it is written; a schema file holding the JSON value \<^verbatim>\<open>null\<close> accepts every document; and an enumeration
  with an array in it makes the validator panic on a document that has an array there.
\<close>

theorem schema_blind_spots:
  assumes "k \<notin> set [''type'', ''enum'', ''minimum'', ''maximum'', ''required'', ''properties'', ''additionalProperties'', ''items'']"
  shows "validateNode path v (Some ((k, x) # s)) = validateNode path v (Some s)
     \<and> (\<forall>f read json_Unmarshal yaml_decode sp cp raw cfg doc.
          read sp = Some raw \<and> json_Unmarshal raw = Some None \<and> read cp = Some cfg \<and> yaml_decode cfg = Some doc
          \<longrightarrow> ValidateAgainstSchema f read json_Unmarshal yaml_decode sp cp = Ok ())
     \<and> validateNode path (JArray xs) (Some [(''enum'', JArray (JArray ys # es))]) = None"
proof (intro conjI allI impI)
  have get: "map_of ((k, x) # s) n = map_of s n"
    if "n \<in> set [''type'', ''enum'', ''minimum'', ''maximum'', ''required'', ''properties'', ''additionalProperties'', ''items'']" for n
    using assms that by (metis map_of_Cons_code(2))
  have same: "type_of ((k, x) # s) = type_of s" "enum_of ((k, x) # s) = enum_of s"
    "items_of ((k, x) # s) = items_of s" "properties_of ((k, x) # s) = properties_of s"
    "range_problems p v ((k, x) # s) = range_problems p v s" "required_problems p obj ((k, x) # s) = required_problems p obj s" for p obj
    by (simp_all add: type_of_def enum_of_def items_of_def properties_of_def range_problems_def required_problems_def get
        del: map_of.simps cong: option.case_cong)
  have unk: "unknown_problems p obj ((k, x) # s) = unknown_problems p obj s" for p obj
    unfolding unknown_problems_def same(4) by (simp add: get del: map_of.simps)
  have "type_fails v ((k, x) # s) = type_fails v s" "enum_fails v ((k, x) # s) = enum_fails v s"
    "below path v ((k, x) # s) = below path v s"
    unfolding type_fails_def enum_fails_def below_def same by (rule refl)+
  then show "validateNode path v (Some ((k, x) # s)) = validateNode path v (Some s)"
    unfolding validateNode_eq [of path v "(k, x) # s"] validateNode_eq [of path v s] same unk by simp
  show "ValidateAgainstSchema f read json_Unmarshal yaml_decode sp cp = Ok ()"
    if "read sp = Some raw \<and> json_Unmarshal raw = Some None \<and> read cp = Some cfg \<and> yaml_decode cfg = Some doc"
    for f read json_Unmarshal yaml_decode sp cp raw cfg doc
    using that by (simp add: ValidateAgainstSchema_def report_problems_def)
  show "validateNode path (JArray xs) (Some [(''enum'', JArray (JArray ys # es))]) = None"
    by (simp add: validateNode_eq type_fails_def enum_fails_def type_of_def enum_of_def)
qed

theorem schema_blind_spots_witness:
  "validateNode '''' (JString ''x'') (Some [(''pattern'', JString ''^[a-z]+$'')]) = Some []"
proof -
  have "''pattern'' \<notin> set [''type'', ''enum'', ''minimum'', ''maximum'', ''required'', ''properties'', ''additionalProperties'', ''items'']"
    by simp
  from schema_blind_spots [OF this, of "''''" "JString ''x''" "JString ''^[a-z]+$''" "[]"] show ?thesis
    by (simp add: validateNode_eq node_defs)
qed

end
