(* ===== verification/Cli.thy ===== *)
theory Cli
  imports Serving Schema
begin

text \<open>
  The command line of \<^verbatim>\<open>cli/main.go\<close>: the log writer and its sinks, the metrics endpoint, the legacy
  round-robin handler the tests use, the \<open>check\<close>, \<open>validate\<close> and \<open>start\<close> commands, shutdown and the
  dispatch in \<open>main\<close>. Flags arrive parsed. A command returns its exit code, what it prints and the error it
  reports. The machine of \<open>Config\<close> (files, YAML decoder, environment, host name) and the network (name
  resolution, sockets) are arguments.
\<close>

section \<open>Logging\<close>

record logs =
  log_out :: string
  log_sinks :: "Multi option"
  log_format :: string

definition logs_init :: logs where
  "logs_init = \<lparr>log_out = '''', log_sinks = Some (NewMulti []), log_format = ''json''\<rparr>"

text \<open>\<open>stamp\<close> is the current time in RFC 3339; \<open>retime\<close> and \<open>marshal\<close> are those of the exporters.\<close>

definition writeLog :: "(string \<Rightarrow> string option) \<Rightarrow> (LogEntry \<Rightarrow> string option) \<Rightarrow> string \<Rightarrow> LogEntry \<Rightarrow> logs \<Rightarrow> logs" where
  "writeLog retime marshal stamp entry l =
     (let e = entry\<lparr>le_Time := stamp\<rparr>;
          l1 = (case log_sinks l of
                  None \<Rightarrow> l
                | Some m \<Rightarrow> if Multi_Name m \<noteq> '''' then l\<lparr>log_sinks := Some (Multi_Write retime marshal e m)\<rparr> else l)
      in if log_format l1 = ''text'' then l1\<lparr>log_out := log_out l1 @ FormatText retime e @ [CHR 0x0A]\<rparr>
         else (case marshal e of
                 None \<Rightarrow> l1
               | Some b \<Rightarrow> l1\<lparr>log_out := log_out l1 @ b @ [CHR 0x0A]\<rparr>))"

text \<open>
  \<open>open_append\<close> creates the directory of the log file and opens the file for appending: its content, or nothing
  when it cannot be opened.
\<close>

definition setupLogging :: "(string \<Rightarrow> string option) \<Rightarrow> Config \<Rightarrow> logs \<Rightarrow> logs" where
  "setupLogging open_append cfg l =
     (let fmt = (if LogFormat cfg = '''' then ''json'' else LogFormat cfg);
          path = (if LogPath cfg = '''' then ''./haribon.log'' else LogPath cfg);
          file = (if EnabledExporter cfg ''file'' \<or> Logging cfg
                  then (case open_append path of
                          None \<Rightarrow> []
                        | Some content \<Rightarrow> [ExpFile \<lparr>fe_File = Some content, fe_Format = fmt\<rparr>])
                  else []);
          loki = (if EnabledExporter cfg ''loki''
                  then [ExpLoki (NewLokiExporter (lk_URL (cLoki cfg))
                          (case lk_Labels (cLoki cfg) of None \<Rightarrow> Map.empty | Some m \<Rightarrow> m))]
                  else []);
          elastic = (if EnabledExporter cfg ''elasticsearch''
                  then [ExpElastic (NewElasticsearchExporter (es_URL (cElasticsearch cfg)) (es_Index (cElasticsearch cfg)))]
                  else []);
          fluent = (if EnabledExporter cfg ''fluentbit'' then [ExpFluentbit (NewFluentbitExporter (fb_Addr (cFluentbit cfg)))] else []);
          exps = file @ loki @ elastic @ fluent;
          l1 = l\<lparr>log_format := fmt\<rparr>
      in if length exps > 0 then l1\<lparr>log_sinks := Some (NewMulti (map Some exps))\<rparr> else l1)"

section \<open>The metrics endpoint\<close>

text \<open>\<open>order\<close> is the order Go iterates over the connection counters, \<open>corder\<close> and \<open>gorder\<close> those of the metrics.\<close>

definition set_active :: "(url \<rightharpoonup> int) \<Rightarrow> url \<Rightarrow> world \<Rightarrow> world" where
  "set_active conns u w =
     (case conns u of
        None \<Rightarrow> w
      | Some n \<Rightarrow> upd_reg (MRegistry_Gauge (MetricName ''haribon_active_conns'' ''backend'' u) (Gauge_Set n)) w)"

definition activeConnsHandler :: "url list \<Rightarrow> (MRegistry \<Rightarrow> string list) \<Rightarrow> (MRegistry \<Rightarrow> string list) \<Rightarrow> world
    \<Rightarrow> metrics_reply option \<times> world" where
  "activeConnsHandler order corder gorder w =
     (let w1 = (case rt_sw w of
                  None \<Rightarrow> w
                | Some e \<Rightarrow>
                    (case ConnsReporter_ActiveConns (e_bal e) of
                       None \<Rightarrow> w
                     | Some conns \<Rightarrow> fold (set_active conns) order w))
      in (map_option (\<lambda>r. MRegistry_Handler (corder r) (gorder r) r) (rt_reg w1), w1))"

section \<open>The legacy handler\<close>

datatype legacy_error = NoBackendsConfigured | NoHealthyBackend

fun legacy_scan :: "u64 \<Rightarrow> url list \<Rightarrow> nat list \<Rightarrow> world \<Rightarrow> (legacy_error, url) go" where
  "legacy_scan start pool [] w = Fail NoHealthyBackend"
| "legacy_scan start pool (i # is) w =
     (case go_nth pool (go_index start i (length pool)) of
        None \<Rightarrow> Panic
      | Some b \<Rightarrow> if isHealthy w b then Ok b else legacy_scan start pool is w)"

text \<open>\<open>currentServer\<close> is the process-wide counter.\<close>

definition getNextBackend :: "u64 \<Rightarrow> world \<Rightarrow> (legacy_error, url) go \<times> u64" where
  "getNextBackend currentServer w =
     (let pool = getBackends w in
      if length pool = 0 then (Fail NoBackendsConfigured, currentServer)
      else let start = currentServer
           in (legacy_scan start pool [0..<length pool] w, currentServer + 1))"

definition cli_stripHopByHop :: "Header \<Rightarrow> Header" where
  "cli_stripHopByHop h =
     (let hopByHop = [''Connection'', ''Keep-Alive'', ''Proxy-Authenticate'', ''Proxy-Authorization'',
                      ''Proxy-Connection'', ''Te'', ''Trailer'', ''Transfer-Encoding'', ''Upgrade''];
          listed = (case h ''Connection'' of None \<Rightarrow> [] | Some vs \<Rightarrow> vs);
          h1 = fold (\<lambda>v. fold (\<lambda>name. Header_Del (trim_space name)) (split_on (CHR '','') v)) listed h
      in fold Header_Del hopByHop h1)"

text \<open>
  One request of the legacy handler. \<open>newreq\<close> says whether the request can be built; \<open>do\<close> is the client, its
  response carrying as much of the body as can be read once the context is cancelled, which happens as soon as
  \<^verbatim>\<open>Do\<close> returns; \<open>body i\<close> is what the reader of the client's body still yields on iteration \<open>i\<close>, an earlier
  iteration having sent and closed it; \<open>ms\<close> is the duration.
\<close>

fun legacy_loop :: "(string \<Rightarrow> string \<Rightarrow> bool) \<Rightarrow> (nat \<Rightarrow> out_request \<Rightarrow> response option) \<Rightarrow> (nat \<Rightarrow> string option) \<Rightarrow> int \<Rightarrow> request
    \<Rightarrow> nat \<Rightarrow> nat \<Rightarrow> u64 \<times> world \<Rightarrow> response option option \<times> u64 \<times> world" where
  "legacy_loop newreq do body ms r i 0 st = (None, st)"
| "legacy_loop newreq do body ms r i (Suc n) (c, w) =
     (case getNextBackend c w of
        (Panic, c1) \<Rightarrow> (Some None, c1, w)
      | (Fail e, c1) \<Rightarrow> (None, c1, w)
      | (Ok server, c1) \<Rightarrow>
          if \<not> newreq (rq_Method r) (server @ rq_URI r) then legacy_loop newreq do body ms r (i + 1) n (c1, w)
          else
            let h1 = cli_stripHopByHop (Map.empty ++ rq_Header r);
                prior = Header_Get ''X-Forwarded-For'' h1;
                h2 = (if prior \<noteq> '''' then Header_Set ''X-Forwarded-For'' (prior @ '', '' @ client_ip r) h1
                      else Header_Set ''X-Forwarded-For'' (client_ip r) h1);
                h3 = Header_Set ''X-Forwarded-Proto'' (if rq_TLS r then ''https'' else ''http'') h2;
                req = \<lparr>or_Method = rq_Method r, or_URL = server @ rq_URI r, or_Header = h3, or_Body = body i,
                       or_Timeout = 10 * second\<rparr>
            in
            (case do i req of
               None \<Rightarrow> legacy_loop newreq do body ms r (i + 1) n (c1, setHealth server False w)
             | Some resp \<Rightarrow>
                 let h = Map.empty ++ cli_stripHopByHop (RespHeader resp) in
                 if \<not> valid_code (StatusCode resp) then (Some None, c1, w)
                 else
                   let w1 = setHealth server True w;
                       w2 = emit_log \<lparr>le_Time = '''', le_Method = rq_Method r, le_Path = rq_Path r, le_Backend = server,
                              le_Status = StatusCode resp, le_DurationMS = ms, le_Retries = 0, le_Level = ''info''\<rparr> w1
                   in (Some (Some \<lparr>StatusCode = StatusCode resp, RespHeader = h, RespBody = RespBody resp\<rparr>), c1, w2)))"

definition loadBalancer :: "(string \<Rightarrow> string \<Rightarrow> bool) \<Rightarrow> (nat \<Rightarrow> out_request \<Rightarrow> response option) \<Rightarrow> (nat \<Rightarrow> string option) \<Rightarrow> int
    \<Rightarrow> request \<Rightarrow> u64 \<times> world \<Rightarrow> response option \<times> u64 \<times> world" where
  "loadBalancer newreq do body ms r st =
     (case legacy_loop newreq do body ms r 0 (length (g_backends (snd st))) st of
        (Some reply, st1) \<Rightarrow> (reply, st1)
      | (None, c, w) \<Rightarrow>
          let w1 = emit_log \<lparr>le_Time = '''', le_Method = rq_Method r, le_Path = rq_Path r, le_Backend = '''',
                 le_Status = 503, le_DurationMS = ms, le_Retries = 0, le_Level = ''error''\<rparr> w
          in (Some (http_Error Map.empty ''All backend servers failed'' 503), c, w1))"

section \<open>Configuration commands\<close>

datatype cli_error =
    ConfigLoad load_error
  | ConfigInvalid cfg_error
  | ClusterFailed string
  | DiscoveryFailed string
  | NoSchemaFile
  | SchemaFailed schema_error
  | UnknownCommand string

record cli_result =
  exit_code :: int
  stdout :: string
  cli_err :: "cli_error option"

definition fails :: "cli_error \<Rightarrow> cli_result" where
  "fails e = \<lparr>exit_code = 1, stdout = '''', cli_err = Some e\<rparr>"

definition resolveConfigPath :: "environ \<Rightarrow> string \<Rightarrow> string" where
  "resolveConfigPath env cli = ResolveConfigPath env cli"

definition applyEnvOverrides :: "environ \<Rightarrow> Config \<Rightarrow> Config" where
  "applyEnvOverrides env cfg = ApplyEnvOverrides env cfg"

definition loadConfig :: "machine \<Rightarrow> string \<Rightarrow> (load_error, Config) go" where
  "loadConfig m path = Load (read_file m) (yaml_Unmarshal m) (environment m) path"

text \<open>The steps the three commands begin with: load, override, validate, default.\<close>

definition prepare :: "machine \<Rightarrow> string \<Rightarrow> (cli_error, Config) go" where
  "prepare m path =
     (case Load (read_file m) (yaml_Unmarshal m) (environment m) path of
        Fail e \<Rightarrow> Fail (ConfigLoad e)
      | Panic \<Rightarrow> Panic
      | Ok cfg0 \<Rightarrow>
          let cfg = ApplyEnvOverrides (environment m) cfg0 in
          (case Validate cfg of
             Some e \<Rightarrow> Fail (ConfigInvalid e)
           | None \<Rightarrow> Ok (Defaults (hostname m) cfg)))"

definition backend_line :: "nat \<Rightarrow> Backend \<Rightarrow> string" where
  "backend_line i b =
     ''  ['' @ itoa (int i) @ ''] '' @ Host b @ '' (weight: '' @ itoa (if bk_Weight b \<le> 0 then 1 else bk_Weight b) @ '')'' @ [CHR 0x0A]"

definition checkCommand :: "machine \<Rightarrow> string \<Rightarrow> cli_result" where
  "checkCommand m configPath =
     (case prepare m (ResolveConfigPath (environment m) configPath) of
        Fail e \<Rightarrow> fails e
      | Panic \<Rightarrow> \<lparr>exit_code = 2, stdout = '''', cli_err = None\<rparr>
      | Ok cfg \<Rightarrow>
          let d = cDiscovery cfg in
          \<lparr>exit_code = 0,
           stdout = ''ok: '' @ itoa (int (length (cBackends cfg))) @ '' backend(s), strategy: '' @ Strategy (cBalancer cfg)
             @ '', probes /healthz /readyz /metrics enabled'' @ [CHR 0x0A]
             @ concat (map (\<lambda>(i, b). backend_line i b) (List.enumerate 0 (cBackends cfg)))
             @ (if dc_Provider d \<noteq> ''''
                then ''  discovery: provider='' @ dc_Provider d @ '', refresh_sec='' @ itoa (dc_RefreshSec d) @ [CHR 0x0A]
                else ''''),
           cli_err = None\<rparr>)"

text \<open>\<^verbatim>\<open>filepath.Base\<close>.\<close>

definition path_base :: "string \<Rightarrow> string" where
  "path_base p =
     (if p = '''' then ''.''
      else let q = rev (dropWhile (\<lambda>c. c = CHR ''/'') (rev p))
           in if q = '''' then ''/'' else rev (takeWhile (\<lambda>c. c \<noteq> CHR ''/'') (rev q)))"

text \<open>What the schema commands meet outside, beside the machine.\<close>

record schema_tools =
  st_fmt :: formatter
  st_stat :: "string \<Rightarrow> bool"
  st_json :: "string \<Rightarrow> object option option"
  st_yaml :: "string \<Rightarrow> json option"

definition validateCommand :: "machine \<Rightarrow> schema_tools \<Rightarrow> string \<Rightarrow> string \<Rightarrow> cli_result" where
  "validateCommand m t configPath schemaPath =
     (let path = ResolveConfigPath (environment m) configPath in
      case prepare m path of
        Fail e \<Rightarrow> fails e
      | Panic \<Rightarrow> \<lparr>exit_code = 2, stdout = '''', cli_err = None\<rparr>
      | Ok cfg \<Rightarrow>
          let schema = FindSchema (st_stat t) schemaPath in
          if schema = '''' then fails NoSchemaFile
          else
            (case ValidateAgainstSchema (st_fmt t) (read_file m) (st_json t) (st_yaml t) schema path of
               Fail e \<Rightarrow> fails (SchemaFailed e)
             | Panic \<Rightarrow> \<lparr>exit_code = 2, stdout = '''', cli_err = None\<rparr>
             | Ok _ \<Rightarrow>
                 \<lparr>exit_code = 0,
                  stdout = ''valid: config file passes '' @ path_base schema @ '' ('' @ itoa (int (length (cBackends cfg)))
                    @ '' backend(s))'' @ [CHR 0x0A],
                  cli_err = None\<rparr>))"

text \<open>
  \<open>marshal\<close> is \<^verbatim>\<open>yaml.Marshal\<close>; \<open>tmp\<close> the name of the temporary file, if one can be created, and \<open>stored\<close> whether
  writing and closing it succeed. The file system then holds the marshalled text under that name.
\<close>

datatype tmp_error = MarshalFailed | TempFailed | WriteFailed | InvalidSchema schema_error

definition validateSchema :: "machine \<Rightarrow> schema_tools \<Rightarrow> (Config \<Rightarrow> string option) \<Rightarrow> string option \<Rightarrow> bool \<Rightarrow> Config
    \<Rightarrow> (tmp_error, unit) go" where
  "validateSchema m t marshal tmp stored cfg =
     (let schema = FindSchema (st_stat t) '''' in
      if schema = '''' then Ok ()
      else
        (case marshal cfg of
           None \<Rightarrow> Fail MarshalFailed
         | Some b \<Rightarrow>
             (case tmp of
                None \<Rightarrow> Fail TempFailed
              | Some name \<Rightarrow>
                  if \<not> stored then Fail WriteFailed
                  else map_go InvalidSchema id
                    (ValidateAgainstSchema (st_fmt t) ((read_file m)(name \<mapsto> b)) (st_json t) (st_yaml t) schema name))))"

section \<open>The start command\<close>

record network =
  net_resolves :: "string \<Rightarrow> bool"
  net_binds :: "string \<Rightarrow> bool"
  net_sources :: sources
  net_sha256 :: "string \<Rightarrow> string"
  net_open :: "string \<Rightarrow> string option"
  net_rand :: "time \<Rightarrow> nat"

record running =
  run_world :: world
  run_logs :: logs
  run_node :: "node_service option"
  run_provider :: "Provider option"
  run_handler :: "world Handler"
  run_addr :: string
  run_shutdown :: time

definition start_cluster :: "machine \<Rightarrow> network \<Rightarrow> string \<Rightarrow> Config \<Rightarrow> (cli_error, node_service option) go" where
  "start_cluster m net path cfg =
     (let c = cCluster cfg in
      if \<not> cl_Enabled c then Ok None
      else
        let node = NewNode (cl_NodeID c) (cl_GossipAddr c) (cl_Peers c) (cl_GossipSec c);
            node1 = Node_SetConfigHash (FileHash (read_file m) (net_sha256 net) path) node
        in (case Node_Start (net_resolves net) (net_binds net) \<lparr>ns_node = node1, ns_listening = False, ns_stopped = False\<rparr> of
              (Ok _, s) \<Rightarrow> Ok (Some s)
            | (Fail e, s) \<Rightarrow> Fail (ClusterFailed e)
            | (Panic, s) \<Rightarrow> Panic))"

definition start_provider :: "Config \<Rightarrow> (cli_error, Provider option) go" where
  "start_provider cfg =
     (let d = cDiscovery cfg in
      if dc_Provider d \<noteq> '''' \<and> dc_Provider d \<noteq> ''static'' then
        map_go DiscoveryFailed Some (NewProvider \<lparr>d_Provider = dc_Provider d, d_DNSName = dc_DNSName d,
          d_DNSPort = dc_DNSPort d, d_FilePath = dc_FilePath d, d_RefreshSec = dc_RefreshSec d\<rparr>)
      else Ok None)"

text \<open>The set-up of \<open>startCommand\<close>, up to the moment the server listens; the goroutines it starts are the steps of \<open>exec\<close>.\<close>

definition startCommand :: "machine \<Rightarrow> network \<Rightarrow> string \<Rightarrow> (cli_error, running) go" where
  "startCommand m net configPath =
     (let path = ResolveConfigPath (environment m) configPath in
      case prepare m path of
        Fail e \<Rightarrow> Fail e
      | Panic \<Rightarrow> Panic
      | Ok cfg \<Rightarrow>
          let l = setupLogging (net_open net) cfg logs_init;
              snapshot = NewSnapshot cfg;
              reg = New_MRegistry
          in
          (case start_cluster m net path cfg of
             Fail e \<Rightarrow> Fail e
           | Panic \<Rightarrow> Panic
           | Ok node \<Rightarrow>
               let w0 = newRuntime snapshot (Some reg) (map_option ns_node node) in
               (case start_provider cfg of
                  Fail e \<Rightarrow> Fail e
                | Panic \<Rightarrow> Panic
                | Ok provider \<Rightarrow>
                    let w1 = (case provider of None \<Rightarrow> w0 | Some p \<Rightarrow> StartDiscovery (net_sources net) p w0);
                        w2 = rebuild cfg w1;
                        timeout = seconds (ShutdownTimeoutSec cfg)
                    in Ok \<lparr>run_world = w2, run_logs = l, run_node = node, run_provider = provider,
                           run_handler = production_handler (net_rand net) cfg,
                           run_addr = MainHost cfg @ '':'' @ itoa (MainPort cfg),
                           run_shutdown = (if timeout \<le> 0 then 15 * second else timeout)\<rparr>)))"

text \<open>After the signal: the server drains, the log sinks are closed, then the deferred calls run.\<close>

definition shutdown :: "running \<Rightarrow> running" where
  "shutdown s =
     s\<lparr>run_logs := (run_logs s)\<lparr>log_sinks := map_option Multi_Close (log_sinks (run_logs s))\<rparr>,
       run_node := map_option Node_Stop (run_node s), run_world := stopScheduler (run_world s)\<rparr>"

text \<open>The routes of the server.\<close>

datatype reply = ProbeReply probe_reply | MetricsReply "metrics_reply option" | ProxyReply "response option"

definition serve_request :: "world Handler \<Rightarrow> world env \<Rightarrow> url list \<Rightarrow> (MRegistry \<Rightarrow> string list) \<Rightarrow> (MRegistry \<Rightarrow> string list)
    \<Rightarrow> request \<Rightarrow> world \<Rightarrow> reply \<times> world" where
  "serve_request h env order corder gorder r w =
     (if rq_Path r = ''/healthz'' then (ProbeReply Healthz, w)
      else if rq_Path r = ''/readyz'' then
        map_prod ProbeReply id (Readyz (swappable_HasHealthyBackend (env_start env)) w)
      else if rq_Path r = ''/metrics'' then map_prod MetricsReply id (activeConnsHandler order corder gorder w)
      else (case ServeHTTP h env r w of (reply, w', calls) \<Rightarrow> (ProxyReply reply, w')))"

section \<open>Dispatch\<close>

definition version :: string where
  "version = ''dev''"

definition versionCommand :: string where
  "versionCommand = ''haribon '' @ version @ [CHR 0x0A]"

datatype command = Start | Check | ValidateCmd | Version | Usage int | Unknown string

definition main_command :: "string list \<Rightarrow> command \<times> string list" where
  "main_command args =
     (if length args < 2 then (Usage 1, [])
      else
        let a = args ! 1; rest = drop 2 args in
        if a = ''start'' then (Start, rest)
        else if a = ''check'' then (Check, rest)
        else if a = ''validate'' then (ValidateCmd, rest)
        else if a = ''version'' \<or> a = ''--version'' \<or> a = ''-v'' then (Version, rest)
        else if a = ''--help'' \<or> a = ''-h'' \<or> a = ''help'' then (Usage 0, rest)
        else (Unknown a, rest))"

section \<open>Lemmas\<close>

lemma prepare_Ok:
  assumes "prepare m path = Ok cfg" "plain_hostname m"
  shows "valid_config cfg" "defaulted cfg"
  using assms Defaults_valid Defaults_defaulted
  by (auto simp: prepare_def Validate_iff plain_hostname_def Let_def split: go.splits option.splits)

lemma prepare_no_panic: "prepare m path \<noteq> Panic"
  using Load_no_panic by (auto simp: prepare_def Let_def split: go.splits option.splits)

lemma prepare_Fail: "prepare m path = Fail e \<Longrightarrow> (\<exists>l. e = ConfigLoad l) \<or> (\<exists>c. e = ConfigInvalid c)"
  by (auto simp: prepare_def Let_def split: go.splits option.splits)

lemma prepare_backends:
  assumes "prepare m path = Ok cfg"
  shows "\<exists>data c. yaml_Unmarshal m data = Some c \<and> cBackends cfg = cBackends c"
proof -
  obtain c0 where c0: "Load (read_file m) (yaml_Unmarshal m) (environment m) path = Ok c0"
    and "cBackends cfg = cBackends c0"
    using assms by (auto simp: prepare_def Let_def ApplyEnvOverrides_def Defaults_def split: go.splits option.splits)
  with Load_backends [OF c0] show ?thesis by auto
qed

text \<open>A validated configuration has a provider that can be built.\<close>

lemma start_provider_Ok:
  assumes "valid_config cfg"
  shows "\<exists>p. start_provider cfg = Ok p \<and> (\<forall>sp. p \<noteq> Some (Static sp))"
  using assms by (auto simp: start_provider_def NewProvider_def valid_config_def Let_def)

text \<open>Resolver answers and discovery files of fewer than \<open>2 ^ 31\<close> entries.\<close>

definition small_sources :: "sources \<Rightarrow> bool" where
  "small_sources src =
     ((\<forall>n as. lookupHost src n = Some as \<longrightarrow> length as < 2 ^ 31) \<and> (\<forall>s us. disc_json src s = Some us \<longrightarrow> length us < 2 ^ 31))"

lemma small_discover:
  assumes "small_sources src" "\<forall>sp. p \<noteq> Static sp" "fst (Provider_Discover src p) = Ok urls"
  shows "length urls < 2 ^ 31"
  using assms
  by (cases p) (auto simp: Provider_Discover_def DNSProvider_Discover_def FileProvider_Discover_def small_sources_def Let_def
      split: option.splits if_splits)

lemma StartDiscovery_eqs:
  "rt_sw (StartDiscovery src p w) = rt_sw w" "rt_snapshot (StartDiscovery src p w) = rt_snapshot w"
  "g_backends (StartDiscovery src p w) = g_backends w" "g_health (StartDiscovery src p w) = g_health w"
  "rt_sched (StartDiscovery src p w) = rt_sched w"
  by (simp_all add: StartDiscovery_def split: go.split)

lemma world_inv_StartDiscovery:
  assumes "small_sources src" "\<forall>sp. p \<noteq> Static sp" "world_inv w"
  shows "world_inv (StartDiscovery src p w)"
  using small_discover [OF assms(1,2)] assms(3) by (auto simp: StartDiscovery_def world_inv_discovered split: go.split)


lemma rebuild_serves:
  assumes "\<not> serving w"
  shows "serving (rebuild cfg w) = buildable cfg w"
  using assms rebuild_published(1) [of cfg w] rebuild_not_buildable [of cfg w]
  by (cases "buildable cfg w") (auto simp: buildable_def serving_def)

text \<open>The first generation, built on a fresh runtime and the first discovery.\<close>

lemma first_generation:
  fixes cfg src reg node provider
  assumes cfg: "valid_config cfg" "defaulted cfg" "length (cBackends cfg) < 2 ^ 31"
    and src: "small_sources src" "\<forall>sp. provider \<noteq> Some (Static sp)"
  defines "w0 \<equiv> newRuntime (NewSnapshot cfg) reg node"
  defines "w1 \<equiv> (case provider of None \<Rightarrow> w0 | Some p \<Rightarrow> StartDiscovery src p w0)"
  shows "world_inv (rebuild cfg w1)"
    and "serving (rebuild cfg w1) \<longleftrightarrow> cBackends cfg \<noteq> [] \<or> filter (\<lambda>u. u \<noteq> '''') (rt_discovered (rebuild cfg w1)) \<noteq> []"
    and "snap_cfg (rt_snapshot (rebuild cfg w1)) = cfg"
proof -
  have w0: "world_inv w0" unfolding w0_def using cfg by (intro newRuntime_inv) (simp_all add: NewSnapshot_def)
  then have w1: "world_inv w1"
    using world_inv_StartDiscovery [OF src(1)] src(2) by (cases provider) (simp_all add: w1_def)
  have s1: "snap_cfg (rt_snapshot w1) = cfg"
    by (cases provider) (simp_all add: w1_def w0_def StartDiscovery_eqs newRuntime_def NewSnapshot_def)
  show "world_inv (rebuild cfg w1)" by (rule world_inv_rebuild [OF w1]) (use cfg in \<open>simp add: config_ok_def\<close>)
  show "snap_cfg (rt_snapshot (rebuild cfg w1)) = cfg" using s1 by simp
  have "\<not> serving w1"
    by (cases provider) (simp_all add: w1_def w0_def StartDiscovery_eqs newRuntime_def serving_def)
  moreover have "list_all valid_backend (cBackends cfg)" using cfg(1) by (simp add: valid_config_def Let_def)
  then have "\<forall>b\<in>set (cBackends cfg). Host b \<noteq> ''''" by (simp add: list_all_iff valid_backend_def)
  moreover have "Strategy (cBalancer cfg) \<noteq> ''''" using cfg(2) by (simp add: defaulted_def)
  ultimately show "serving (rebuild cfg w1) \<longleftrightarrow> cBackends cfg \<noteq> [] \<or> filter (\<lambda>u. u \<noteq> '''') (rt_discovered (rebuild cfg w1)) \<noteq> []"
    using valid_buildable [OF cfg(1), of w1] by (cases "cBackends cfg") (auto simp: rebuild_serves filter_empty_conv)
qed

section \<open>Properties\<close>

text \<open>
  C10: starting up. \<open>startCommand\<close> never panics; it fails only when the configuration cannot be loaded or is
  invalid, or when the gossip address cannot be resolved or bound (a validated configuration never fails at
  discovery); otherwise the runtime it leaves satisfies the invariant, and it has a pool to serve from
  exactly when the configuration lists a backend or the first discovery found one.
\<close>

theorem start_correct:
  assumes "plain_hostname m"
    and "\<forall>data cfg. yaml_Unmarshal m data = Some cfg \<longrightarrow> length (cBackends cfg) < 2 ^ 31"
    and "small_sources (net_sources net)"
  shows "case startCommand m net configPath of
       Ok s \<Rightarrow> world_inv (run_world s)
         \<and> serving (run_world s) = (cBackends (snap_cfg (rt_snapshot (run_world s))) \<noteq> []
              \<or> filter (\<lambda>u. u \<noteq> '''') (rt_discovered (run_world s)) \<noteq> [])
     | Fail e \<Rightarrow> (\<exists>l. e = ConfigLoad l) \<or> (\<exists>c. e = ConfigInvalid c) \<or> (\<exists>a. e = ClusterFailed a)
     | Panic \<Rightarrow> False"
proof -
  let ?path = "ResolveConfigPath (environment m) configPath"
  show ?thesis
  proof (cases "prepare m ?path")
    case (Ok cfg)
    have len: "length (cBackends cfg) < 2 ^ 31" using prepare_backends [OF Ok] assms(2) by auto
    obtain p where p: "start_provider cfg = Ok p" and st: "\<forall>sp. p \<noteq> Some (Static sp)"
      using start_provider_Ok prepare_Ok(1) [OF Ok assms(1)] by blast
    have c: "(\<exists>n. start_cluster m net ?path cfg = Ok n) \<or> (\<exists>a. start_cluster m net ?path cfg = Fail (ClusterFailed a))"
      by (simp add: start_cluster_def Node_Start_def Let_def)
    show ?thesis
      using c p first_generation [OF prepare_Ok [OF Ok assms(1)] len assms(3) st] by (auto simp: startCommand_def Ok Let_def)
  next
    case (Fail e)
    with prepare_Fail [OF Fail] show ?thesis by (auto simp: startCommand_def)
  qed (use prepare_no_panic in blast)
qed

definition demo_machine :: machine where
  "demo_machine = \<lparr>read_file = (\<lambda>p. Some ''x''),
     yaml_Unmarshal = (\<lambda>s. Some (zero_Config\<lparr>cBackends := [\<lparr>Host = ''http://a'', bk_Weight = 0\<rparr>]\<rparr>)),
     environment = Map.empty, hostname = None\<rparr>"

definition demo_net :: network where
  "demo_net = \<lparr>net_resolves = (\<lambda>a. True), net_binds = (\<lambda>a. True),
     net_sources = \<lparr>lookupHost = (\<lambda>n. None), disc_read = (\<lambda>p. None), disc_json = (\<lambda>s. None)\<rparr>,
     net_sha256 = id, net_open = (\<lambda>p. Some ''''), net_rand = (\<lambda>t. 0)\<rparr>"

lemma demo_prepare: "prepare demo_machine path = Ok demo_config"
proof -
  have "Validate (zero_Config\<lparr>cBackends := [\<lparr>Host = ''http://a'', bk_Weight = 0\<rparr>]\<rparr>) = None"
    unfolding Validate_iff using demo_backend by (simp add: valid_config_def zero_Config_def)
  then show ?thesis
    by (simp add: prepare_def demo_machine_def Load_def ApplyEnvOverrides_def getenv_def Let_def demo_config_def)
qed

text \<open>
  C30: the checking commands predict the start. \<open>check\<close> exits with 0 exactly when the configuration loads and
  validates, and then \<open>start\<close> with the same file can only fail at the gossip socket; \<open>validate\<close> exits with 0
  only when \<open>check\<close> does, a schema file was found and the schema validator found no problem.
\<close>

theorem commands_agree:
  "(exit_code (checkCommand m path) = 0) = (\<exists>cfg. prepare m (ResolveConfigPath (environment m) path) = Ok cfg)
   \<and> (exit_code (checkCommand m path) = 0 \<longrightarrow> plain_hostname m \<longrightarrow>
        (\<exists>s. startCommand m net path = Ok s) \<or> (\<exists>a. startCommand m net path = Fail (ClusterFailed a)))
   \<and> (exit_code (validateCommand m t path schema) = 0 \<longrightarrow>
        exit_code (checkCommand m path) = 0 \<and> FindSchema (st_stat t) schema \<noteq> ''''
        \<and> ValidateAgainstSchema (st_fmt t) (read_file m) (st_json t) (st_yaml t) (FindSchema (st_stat t) schema)
            (ResolveConfigPath (environment m) path) = Ok ())"
proof (intro conjI impI)
  let ?path = "ResolveConfigPath (environment m) path"
  show ok: "(exit_code (checkCommand m path) = 0) = (\<exists>cfg. prepare m ?path = Ok cfg)"
    by (simp add: checkCommand_def fails_def Let_def split: go.split)
  show "(\<exists>s. startCommand m net path = Ok s) \<or> (\<exists>a. startCommand m net path = Fail (ClusterFailed a))"
    if c: "exit_code (checkCommand m path) = 0" and h: "plain_hostname m"
  proof -
    obtain cfg where cfg: "prepare m ?path = Ok cfg" using ok c by blast
    obtain p where "start_provider cfg = Ok p" using start_provider_Ok prepare_Ok(1) [OF cfg h] by blast
    then show ?thesis
      by (simp add: startCommand_def cfg start_cluster_def Node_Start_def Let_def)
  qed
  assume v: "exit_code (validateCommand m t path schema) = 0"
  then obtain cfg where cfg: "prepare m ?path = Ok cfg"
    by (auto simp: validateCommand_def fails_def Let_def split: go.splits)
  with ok show "exit_code (checkCommand m path) = 0" by blast
  show "FindSchema (st_stat t) schema \<noteq> ''''"
    "ValidateAgainstSchema (st_fmt t) (read_file m) (st_json t) (st_yaml t) (FindSchema (st_stat t) schema) ?path = Ok ()"
    using v cfg by (auto simp: validateCommand_def fails_def Let_def split: if_splits go.splits)
qed

lemma demo_start_Ok: "\<exists>s. startCommand demo_machine demo_net '''' = Ok s \<and> run_world s = demo_world"
proof -
  have "start_cluster demo_machine demo_net path demo_config = Ok None" for path
    by (simp add: start_cluster_def demo_config_def Defaults_def zero_Config_def default_cluster_def)
  moreover have "start_provider demo_config = Ok None"
    by (simp add: start_provider_def demo_config_def Defaults_def zero_Config_def default_discovery_def)
  ultimately show ?thesis
    by (simp add: startCommand_def demo_prepare Let_def demo_world_def demo_start_def)
qed

theorem start_correct_witness:
  "\<exists>s. startCommand demo_machine demo_net '''' = Ok s \<and> world_inv (run_world s) \<and> serving (run_world s)"
proof -
  obtain s where s: "startCommand demo_machine demo_net '''' = Ok s" "run_world s = demo_world"
    using demo_start_Ok by blast
  have "plain_hostname demo_machine" "small_sources (net_sources demo_net)"
    "\<forall>data cfg. yaml_Unmarshal demo_machine data = Some cfg \<longrightarrow> length (cBackends cfg) < 2 ^ 31"
    by (simp_all add: plain_hostname_def demo_machine_def small_sources_def demo_net_def)
  from start_correct [OF this(1,3,2), of "''''"] s show ?thesis
    by (simp add: demo_world_def demo_start_def newRuntime_def NewSnapshot_def demo_config_fields)
qed

text \<open>A formatter that prints nothing, and a schema that accepts every object.\<close>

definition demo_tools :: schema_tools where
  "demo_tools = \<lparr>st_fmt = \<lparr>fmt_v = (\<lambda>v. ''''), fmt_q = id\<rparr>, st_stat = (\<lambda>p. True),
     st_json = (\<lambda>s. Some (Some [(''type'', JString ''object'')])), st_yaml = (\<lambda>s. Some (JObject []))\<rparr>"

theorem commands_agree_witness:
  "exit_code (checkCommand demo_machine '''') = 0
   \<and> ((\<exists>s. startCommand demo_machine demo_net '''' = Ok s) \<or> (\<exists>a. startCommand demo_machine demo_net '''' = Fail (ClusterFailed a)))"
proof -
  have "plain_hostname demo_machine" by (simp add: plain_hostname_def demo_machine_def)
  with commands_agree [of demo_machine "''''" demo_net demo_tools "''''"] demo_prepare show ?thesis by blast
qed

section \<open>The server and its endpoints\<close>

lemma world_inv_gauges: "world_inv (fold (set_active conns) us w) = world_inv w"
proof (induction us arbitrary: w)
  case (Cons u us)
  have "world_inv (upd_reg f v) = world_inv v" for f v by (simp add: world_inv_def)
  with Cons show ?case by (simp add: set_active_def split: option.split)
qed simp

lemma world_inv_metrics: "world_inv (snd (activeConnsHandler order corder gorder w)) = world_inv w"
  by (simp add: activeConnsHandler_def Let_def world_inv_gauges split: option.split)

text \<open>
  C5: the server keeps the runtime. Whatever path is requested (liveness, readiness, metrics, or anything
  else, which is proxied), and whatever the backends answer and the other goroutines do meanwhile (other
  requests' calls, probes, gossip, reloads, discovery), the runtime satisfies its invariant afterwards.
\<close>

theorem server_keeps_runtime:
  assumes "world_inv w" and "\<forall>n. list_all op_ok (during n)" and "\<forall>n. list_all op_ok (sleeping n)"
    and "env_during env = (\<lambda>n. fold exec (during n))" and "env_backoff env = (\<lambda>n. fold exec (sleeping n))"
  shows "world_inv (snd (serve_request (production_handler rnd cfg) env order corder gorder r w))"
proof -
  have "world_inv (snd (Readyz (swappable_HasHealthyBackend (env_start env)) w))"
    using world_inv_exec [OF assms(1), of "OpReadyz (env_start env)"] by (auto simp: Readyz_def split: prod.split)
  moreover have "world_inv (fst (snd (ServeHTTP (production_handler rnd cfg) env r w)))"
    by (rule request_keeps_runtime [OF assms])
  ultimately show ?thesis
    using assms(1) by (simp add: serve_request_def world_inv_metrics case_prod_unfold)
qed

theorem server_keeps_runtime_witness:
  "world_inv (snd (serve_request (production_handler (\<lambda>t. 0) demo_config)
      (world_env (\<lambda>n. None) (\<lambda>n. [OpDiscovery [''http://b''], OpReadyz 3])) [] (\<lambda>r. []) (\<lambda>r. [])
      (demo_request ''GET'') demo_world))"
  by (rule server_keeps_runtime [OF demo_world_inv, of "\<lambda>n. [OpDiscovery [''http://b''], OpReadyz 3]"
        "\<lambda>n. [OpDiscovery [''http://b''], OpReadyz 3]"]) (simp_all add: world_env_def)


lemma MetricName_inj: "MetricName b l u = MetricName b l v \<longleftrightarrow> u = v"
  by (simp add: MetricName_def)

definition active_gauge :: "url \<Rightarrow> world \<Rightarrow> int option" where
  "active_gauge u w = map_option (\<lambda>r. gauge_value r (MetricName ''haribon_active_conns'' ''backend'' u)) (rt_reg w)"

lemma active_gauge_set:
  assumes "conns v = Some n" "- (2 ^ 63) \<le> n" "n < 2 ^ 63" "rt_reg w \<noteq> None"
  shows "active_gauge u (set_active conns v w) = (if u = v then Some n else active_gauge u w)"
proof -
  have "sint (word_of_int n :: u64) = n" using assms(2,3) by (simp add: signed_of_int signed_take_bit_int_eq_self)
  with assms(1,4) show ?thesis
    by (auto simp: active_gauge_def set_active_def upd_reg_def gauge_value_def MRegistry_Gauge_def Gauge_Set_def Gauge_Load_def
        MetricName_inj split: option.splits)
qed

lemma set_active_reg [simp]: "(rt_reg (set_active conns v w) = None) = (rt_reg w = None)"
  by (simp add: set_active_def upd_reg_def split: option.split)

lemma active_gauges_fold:
  assumes "\<forall>v\<in>set us. \<exists>n. conns v = Some n \<and> - (2 ^ 63) \<le> n \<and> n < 2 ^ 63" "rt_reg w \<noteq> None"
  shows "active_gauge u (fold (set_active conns) us w) = (if u \<in> set us then conns u else active_gauge u w)"
  using assms
proof (induction us arbitrary: w)
  case (Cons v us)
  obtain n where n: "conns v = Some n" "- (2 ^ 63) \<le> n" "n < 2 ^ 63" using Cons.prems(1) by auto
  have "rt_reg (set_active conns v w) \<noteq> None" using Cons.prems(2) by (simp del: not_None_eq)
  moreover have "\<forall>v\<in>set us. \<exists>n. conns v = Some n \<and> - (2 ^ 63) \<le> n \<and> n < 2 ^ 63" using Cons.prems(1) by simp
  ultimately have "active_gauge u (fold (set_active conns) us (set_active conns v w))
      = (if u \<in> set us then conns u else active_gauge u (set_active conns v w))"
    using Cons.IH by blast
  then show ?case using active_gauge_set [of conns v n w u, OF n Cons.prems(2)] n(1) by auto
qed simp

text \<open>
  The scrape shows the connections in flight. With least-connections, and counters within 64 bits, the
  gauge \<open>haribon_active_conns\<close> of every backend of the pool in the reply to \<open>/metrics\<close> is the balancer's
  counter at that moment.
\<close>

theorem active_conns_current:
  assumes "rt_sw w = Some e" "e_bal e = LeastConn l" "rt_reg w \<noteq> None"
    and "set order = dom (lc_conns l)"
    and "\<forall>v n. lc_conns l v = Some n \<longrightarrow> - (2 ^ 63) \<le> n \<and> n < 2 ^ 63"
    and "activeConnsHandler order corder gorder w = (reply, w')"
  shows "\<exists>r. rt_reg w' = Some r \<and> reply = Some (MRegistry_Handler (corder r) (gorder r) r)
     \<and> (\<forall>u n. lc_conns l u = Some n \<longrightarrow> gauge_value r (MetricName ''haribon_active_conns'' ''backend'' u) = n)"
proof -
  let ?w = "fold (set_active (lc_conns l)) order w"
  have h: "w' = ?w" "reply = map_option (\<lambda>r. MRegistry_Handler (corder r) (gorder r) r) (rt_reg ?w)"
    using assms(1,2,6)
    by (auto simp: activeConnsHandler_def ConnsReporter_ActiveConns_def leastConn_ActiveConns_def Let_def)
  have c: "\<forall>v\<in>set order. \<exists>n. lc_conns l v = Some n \<and> - (2 ^ 63) \<le> n \<and> n < 2 ^ 63"
    using assms(4,5) by (force simp: dom_def)
  have "rt_reg (fold (set_active (lc_conns l)) us v) \<noteq> None" if "rt_reg v \<noteq> None" for us v
    using that by (induction us arbitrary: v) (simp_all del: not_None_eq)
  then obtain r where r: "rt_reg ?w = Some r" using assms(3) by blast
  have "gauge_value r (MetricName ''haribon_active_conns'' ''backend'' u) = n" if "lc_conns l u = Some n" for u n
    using active_gauges_fold [OF c assms(3), of u] that assms(4) r by (simp add: active_gauge_def dom_def)
  with h r show ?thesis by auto
qed

theorem active_conns_current_witness:
  "\<exists>r. snd (activeConnsHandler [''http://a''] (\<lambda>r. []) (\<lambda>r. []) (demo_world\<lparr>rt_reg := Some New_MRegistry,
        rt_sw := Some (demo_engine\<lparr>e_bal := LeastConn \<lparr>lc_backends = [], lc_conns = [''http://a'' \<mapsto> 3]\<rparr>\<rparr>)\<rparr>)) = r
     \<and> (case rt_reg r of Some m \<Rightarrow> gauge_value m (MetricName ''haribon_active_conns'' ''backend'' ''http://a'') = 3 | None \<Rightarrow> False)"
proof -
  let ?l = "\<lparr>lc_backends = [], lc_conns = [''http://a'' \<mapsto> 3]\<rparr>"
  let ?e = "demo_engine\<lparr>e_bal := LeastConn ?l\<rparr>"
  let ?w = "demo_world\<lparr>rt_reg := Some New_MRegistry, rt_sw := Some ?e\<rparr>"
  obtain reply w' where h: "activeConnsHandler [''http://a''] (\<lambda>r. []) (\<lambda>r. []) ?w = (reply, w')" by fastforce
  have "rt_sw ?w = Some ?e" "e_bal ?e = LeastConn ?l" "rt_reg ?w \<noteq> None" "set [''http://a''] = dom (lc_conns ?l)"
    "\<forall>v n. lc_conns ?l v = Some n \<longrightarrow> - (2 ^ 63) \<le> n \<and> n < 2 ^ 63"
    by simp_all
  from active_conns_current [OF this h] h show ?thesis by auto
qed

section \<open>The legacy helpers agree with the production code\<close>

definition local_health :: "world checker_fun" where
  "local_health w u = (isHealthy w u, w)"

lemma walk_legacy:
  "map_prod (map_go (\<lambda>e. NoHealthyBackend) id) id (walk local_health (map (\<lambda>u. \<lparr>URL = u, Weight = 0\<rparr>) pool) (\<lambda>i. go_index c i (length pool)) is w)
   = (legacy_scan c pool is w, w)"
proof (induction "is")
  case (Cons i "is")
  have "go_nth (map f pool) k = map_option f (go_nth pool k)" for f :: "url \<Rightarrow> BackendEntry" and k
    by (auto simp: go_nth_def nat_less_iff)
  with Cons show ?case by (simp add: local_health_def split: option.split)
qed (simp add: local_health_def)

lemma fold_Del_split:
  "fold (\<lambda>v. fold (\<lambda>name. Header_Del (trim_space name)) (split_on (CHR '','') v)) vs h
   = fold Header_Del (concat (map (\<lambda>v. map trim_space (split_on (CHR '','') v)) vs)) h"
  by (induction vs arbitrary: h) (simp_all add: fold_map comp_def)

text \<open>
  The helpers kept for the tests agree with the production code. The legacy \<open>getNextBackend\<close> picks what
  the round-robin balancer picks on the same pool and counter with the local health map as its checker
  (and fails or panics when it does, advancing the counter in the same way), and the legacy header filter is
  the proxy's.
\<close>

theorem legacy_agrees:
  assumes "getBackends w \<noteq> []"
  shows "(case roundRobin_Next local_health
            \<lparr>rr_backends = map (\<lambda>u. \<lparr>URL = u, Weight = 0\<rparr>) (getBackends w), rr_counter = c\<rparr> w of
            (res, rr', w') \<Rightarrow> (map_go (\<lambda>e. NoHealthyBackend) id res, rr_counter rr') = getNextBackend c w \<and> w' = w)
     \<and> cli_stripHopByHop h = stripHopByHop h"
proof
  let ?bs = "map (\<lambda>u. \<lparr>URL = u, Weight = 0\<rparr>) (getBackends w)"
  obtain res w' where r: "walk local_health ?bs (\<lambda>i. go_index c i (length (getBackends w))) [0..<length (getBackends w)] w = (res, w')"
    by fastforce
  with walk_legacy [of "getBackends w" c "[0..<length (getBackends w)]" w]
  have "map_go (\<lambda>e. NoHealthyBackend) id res = legacy_scan c (getBackends w) [0..<length (getBackends w)] w" "w' = w"
    by simp_all
  with r assms show "case roundRobin_Next local_health \<lparr>rr_backends = ?bs, rr_counter = c\<rparr> w of
      (res, rr', w') \<Rightarrow> (map_go (\<lambda>e. NoHealthyBackend) id res, rr_counter rr') = getNextBackend c w \<and> w' = w"
    by (simp add: roundRobin_Next_def getNextBackend_def Let_def)
  show "cli_stripHopByHop h = stripHopByHop h"
    by (simp add: cli_stripHopByHop_def stripHopByHop_def hopByHopHeaders_def connection_names_def fold_Del_split
        Let_def split: option.split)
qed

theorem legacy_agrees_witness:
  "cli_stripHopByHop [''Te'' \<mapsto> [''x'']] = stripHopByHop [''Te'' \<mapsto> [''x''] ]"
proof -
  have "getBackends demo_world \<noteq> []" by (simp add: getBackends_def demo_world_health)
  from legacy_agrees [OF this] show ?thesis by blast
qed

section \<open>Where log lines go\<close>

text \<open>The names of the sinks a configuration asks for, when its log file can be opened.\<close>

definition wanted_sinks :: "Config \<Rightarrow> string list" where
  "wanted_sinks cfg =
     (if EnabledExporter cfg ''file'' \<or> Logging cfg then [''file''] else [])
     @ filter (EnabledExporter cfg) [''loki'', ''elasticsearch'', ''fluentbit'']"

lemma map_filter_id_Some: "List.map_filter id (map Some xs) = xs"
  by (induction xs) (simp_all add: map_filter_simps)

lemma sinks_named: "\<forall>x\<in>set xs. Exporter_Name x \<noteq> '''' \<Longrightarrow> Multi_Name \<lparr>exporters = xs\<rparr> \<noteq> '''' \<longleftrightarrow> xs \<noteq> []"
  using join_nonempty [of "map Exporter_Name xs" "''+''"] by (cases xs) (auto simp: Multi_Name_def)

text \<open>
  C36: every log line reaches standard output and every configured sink. After \<open>setupLogging\<close> with a
  log file that can be opened, the sinks are exactly the configured ones, in the order file, Loki,
  Elasticsearch, Fluent Bit; and one \<open>writeLog\<close> of an entry that can be marshalled adds one line to standard
  output and hands the stamped entry to each of them.
\<close>

theorem log_line_reaches_sinks:
  fixes retime
  assumes "open_append (if LogPath cfg = '''' then ''./haribon.log'' else LogPath cfg) = Some content"
    and "LogFormat cfg \<in> {''json'', ''text''}"
    and "marshal (entry\<lparr>le_Time := stamp\<rparr>) = Some line"
  defines "l \<equiv> setupLogging open_append cfg logs_init"
  defines "l' \<equiv> writeLog retime marshal stamp entry l"
  shows "\<exists>xs. log_sinks l = Some \<lparr>exporters = xs\<rparr> \<and> map Exporter_Name xs = wanted_sinks cfg
     \<and> log_sinks l' = Some \<lparr>exporters = map (Exporter_Write retime marshal (entry\<lparr>le_Time := stamp\<rparr>)) xs\<rparr>
     \<and> log_out l' = (if LogFormat cfg = ''text'' then FormatText retime (entry\<lparr>le_Time := stamp\<rparr>) else line) @ [CHR 0x0A]"
proof -
  define xs where "xs =
     (if EnabledExporter cfg ''file'' \<or> Logging cfg then [ExpFile \<lparr>fe_File = Some content, fe_Format = LogFormat cfg\<rparr>] else [])
     @ (if EnabledExporter cfg ''loki'' then [ExpLoki (NewLokiExporter (lk_URL (cLoki cfg))
          (case lk_Labels (cLoki cfg) of None \<Rightarrow> Map.empty | Some m \<Rightarrow> m))] else [])
     @ (if EnabledExporter cfg ''elasticsearch''
        then [ExpElastic (NewElasticsearchExporter (es_URL (cElasticsearch cfg)) (es_Index (cElasticsearch cfg)))] else [])
     @ (if EnabledExporter cfg ''fluentbit'' then [ExpFluentbit (NewFluentbitExporter (fb_Addr (cFluentbit cfg)))] else [])"
  have f: "(if LogFormat cfg = '''' then ''json'' else LogFormat cfg) = LogFormat cfg" using assms(2) by auto
  have l: "l = logs_init\<lparr>log_format := LogFormat cfg, log_sinks := Some \<lparr>exporters = xs\<rparr>\<rparr>"
    unfolding l_def setupLogging_def Let_def f assms(1) option.case xs_def [symmetric] NewMulti_def
    by (cases "xs = []") (simp_all add: map_filter_id_Some logs_init_def NewMulti_def map_filter_simps)
  have n: "map Exporter_Name xs = wanted_sinks cfg"
    by (simp add: xs_def wanted_sinks_def Exporter_Name_def NewLokiExporter_def NewElasticsearchExporter_def
        NewFluentbitExporter_def newBatch_def Let_def)
  then have "\<forall>x\<in>set xs. Exporter_Name x \<noteq> ''''"
    by (auto simp: xs_def Exporter_Name_def NewLokiExporter_def NewElasticsearchExporter_def
        NewFluentbitExporter_def newBatch_def Let_def split: if_splits)
  note named = sinks_named [OF this]
  show ?thesis
    using n named assms(3)
    by (cases "xs = []") (auto simp: l l'_def writeLog_def Let_def Multi_Write_def logs_init_def)
qed

theorem log_line_reaches_sinks_witness:
  "\<exists>m. log_sinks (writeLog (\<lambda>t. None) (\<lambda>e. Some ''{}'') ''now'' \<lparr>le_Time = '''', le_Method = ''GET'', le_Path = ''/'',
        le_Backend = '''', le_Status = 503, le_DurationMS = 0, le_Retries = 0, le_Level = ''error''\<rparr>
      (setupLogging (\<lambda>p. Some '''') (demo_config\<lparr>Exporters := [''file'', ''loki'']\<rparr>) logs_init)) = Some m
     \<and> length (exporters m) = 2"
proof -
  let ?c = "demo_config\<lparr>Exporters := [''file'', ''loki'']\<rparr>"
  let ?e = "\<lparr>le_Time = '''', le_Method = ''GET'', le_Path = ''/'', le_Backend = '''', le_Status = 503, le_DurationMS = 0,
    le_Retries = 0, le_Level = ''error''\<rparr>"
  have "LogFormat ?c \<in> {''json'', ''text''}" by (simp add: demo_config_def Defaults_def zero_Config_def)
  from log_line_reaches_sinks [where open_append = "\<lambda>p. Some ''''" and cfg = ?c and content = "''''"
      and marshal = "\<lambda>e. Some ''{}''" and entry = ?e and stamp = "''now''" and line = "''{}''" and retime = "\<lambda>t. None", OF refl this refl]
  obtain xs where "map Exporter_Name xs = wanted_sinks ?c"
    "log_sinks (writeLog (\<lambda>t. None) (\<lambda>e. Some ''{}'') ''now'' ?e (setupLogging (\<lambda>p. Some '''') ?c logs_init))
      = Some \<lparr>exporters = map (Exporter_Write (\<lambda>t. None) (\<lambda>e. Some ''{}'') (?e\<lparr>le_Time := ''now''\<rparr>)) xs\<rparr>"
    by blast
  moreover from this(1) have "length xs = 2"
    using arg_cong [of _ _ length] by (fastforce simp: wanted_sinks_def EnabledExporter_def)
  ultimately show ?thesis by simp
qed

end
