(* ===== verification/Background.thy ===== *)
theory Background
  imports Cli
begin

text \<open>
  The goroutines that run beside the server: one probe per backend (\<open>Run\<close> of
  \<^verbatim>\<open>internal/health/scheduler.go\<close>), the gossip loop, the discovery loop, the configuration watcher and the
  publication of the cluster gauges (\<open>StartClusterMetrics\<close> of \<^verbatim>\<open>cli/engine.go\<close>). Their steps are operations of
  \<open>exec\<close>; this theory models how each of them starts its ticker. A ticker with a period that is not positive
  panics, and a panic in a goroutine ends the process.
\<close>

section \<open>Tickers\<close>

text \<open>\<^verbatim>\<open>time.NewTicker\<close>: the period of the new ticker, or a panic.\<close>

definition NewTicker :: "time \<Rightarrow> (string, time) go" where
  "NewTicker d = (if d \<le> 0 then Panic else Ok d)"

text \<open>The probes \<open>Run\<close> starts, each with its ticker.\<close>

definition Scheduler_Run :: "Scheduler \<Rightarrow> (url \<times> (string, time) go) list" where
  "Scheduler_Run s = map (\<lambda>b. (b, NewTicker (seconds (IntervalSec (sched_cfg s))))) (sched_backends s)"

definition gossip_ticker :: "Node \<Rightarrow> (string, time) go" where
  "gossip_ticker n = NewTicker (seconds (GossipSec n))"

text \<open>The ticker of \<open>watchLoop\<close>; the static provider has none.\<close>

definition Provider_ticker :: "Provider \<Rightarrow> (string, time) go option" where
  "Provider_ticker p =
     (case p of
        Static sp \<Rightarrow> None
      | DNS dp \<Rightarrow> Some (NewTicker (dns_interval dp))
      | File fp \<Rightarrow> Some (NewTicker (fp_interval fp)))"

definition poll_ticker :: "int \<Rightarrow> (string, time) go option" where
  "poll_ticker watchSecs = (if watchSecs > 0 then Some (NewTicker (seconds watchSecs)) else None)"

text \<open>Its ticks are the operation \<open>OpMetricsTick\<close>.\<close>

definition StartClusterMetrics :: "world \<Rightarrow> (string, time) go option" where
  "StartClusterMetrics w =
     (if rt_reg w = None then None
      else map_option (\<lambda>n. NewTicker (seconds (GossipSec n))) (rt_node w))"

text \<open>All tickers the goroutines of \<open>startCommand\<close> create, with \<open>watchSecs\<close> the value of its second flag.\<close>

definition start_tickers :: "int \<Rightarrow> running \<Rightarrow> (string, time) go list" where
  "start_tickers watchSecs s =
     (case run_node s of None \<Rightarrow> [] | Some ns \<Rightarrow> [gossip_ticker (ns_node ns)])
     @ (case run_provider s of None \<Rightarrow> [] | Some p \<Rightarrow> (case Provider_ticker p of None \<Rightarrow> [] | Some t \<Rightarrow> [t]))
     @ (case rt_sched (run_world s) of None \<Rightarrow> [] | Some (sch, probes) \<Rightarrow> map snd (Scheduler_Run sch))
     @ (case poll_ticker watchSecs of None \<Rightarrow> [] | Some t \<Rightarrow> [t])
     @ (case StartClusterMetrics (run_world s) of None \<Rightarrow> [] | Some t \<Rightarrow> [t])"

section \<open>Periods that fit\<close>

text \<open>The largest number of seconds whose nanoseconds fit in 63 bits, about 292 years.\<close>

definition longest_period :: int where
  "longest_period = 9223372036"

definition period_ok :: "int \<Rightarrow> bool" where
  "period_ok n = (0 < n \<and> n \<le> longest_period)"

lemma period_ticks: "period_ok n \<Longrightarrow> NewTicker (seconds n) = Ok (n * second)"
  by (simp add: period_ok_def longest_period_def NewTicker_def seconds_small)

text \<open>The periods a configuration document may ask for.\<close>

definition short_periods :: "Config \<Rightarrow> bool" where
  "short_periods cfg =
     (hc_IntervalSec (cHealth cfg) \<le> longest_period \<and> cl_GossipSec (cCluster cfg) \<le> longest_period)"

definition documents_short :: "machine \<Rightarrow> bool" where
  "documents_short m = (\<forall>data cfg. yaml_Unmarshal m data = Some cfg \<longrightarrow> short_periods cfg)"

fun reload_short :: "operation \<Rightarrow> bool" where
  "reload_short (OpReload m path) = documents_short m"
| "reload_short (OpStore m path) = documents_short m"
| "reload_short _ = True"

lemma Defaults_periods:
  assumes "short_periods cfg"
  shows "period_ok (hc_IntervalSec (cHealth (Defaults hn (ApplyEnvOverrides env cfg))))"
    and "cl_Enabled (cCluster (Defaults hn (ApplyEnvOverrides env cfg)))
      \<longrightarrow> period_ok (cl_GossipSec (cCluster (Defaults hn (ApplyEnvOverrides env cfg))))"
  using assms
  by (auto simp: short_periods_def period_ok_def longest_period_def Defaults_def ApplyEnvOverrides_def default_health_def
      default_cluster_def Let_def split: option.split)

lemma Load_short:
  assumes "documents_short m" "Load (read_file m) (yaml_Unmarshal m) env path = Ok cfg"
  shows "short_periods cfg"
  using assms by (auto simp: documents_short_def Load_def split: option.splits)

section \<open>The probe period along a run\<close>

text \<open>The period of the running probes, and the configurations that may set it.\<close>

definition pace :: "world \<Rightarrow> int option \<times> Config list" where
  "pace w =
     (map_option (\<lambda>(s, probes). IntervalSec (sched_cfg s)) (rt_sched w), snap_cfg (rt_snapshot w) # rt_loaded w)"

definition paces :: "Config \<Rightarrow> bool" where
  "paces cfg = period_ok (hc_IntervalSec (cHealth cfg))"

definition paced :: "world \<Rightarrow> bool" where
  "paced w = ((case fst (pace w) of None \<Rightarrow> True | Some n \<Rightarrow> period_ok n) \<and> list_all paces (snd (pace w)))"

lemma pace_quiet [simp]:
  "pace (upd_reg f w) = pace w" "pace (set_bal bal w) = pace w" "pace (set_breaker r w) = pace w"
  "pace (fold breakerLog cs w) = pace w" "pace (makeProxyLogger le w) = pace w"
  "pace (makeHealthLogger b l w) = pace w" "pace (w\<lparr>rt_node := n\<rparr>) = pace w" "pace (stateWriter b v w) = pace w"
  "pace (w\<lparr>rt_late := la\<rparr>) = pace w"
  by (simp_all add: pace_def stateWriter_def setHealth_def Let_def)

interpretation pace: runtime_kept "\<lambda>v. pace v = st" for st
  by unfold_locales (auto simp: pace_def avail_frame)

lemma pace_effects: "pace (fold apply_effect effs w) = pace w"
proof (induction effs arbitrary: w)
  case (Cons e effs)
  then show ?case by (cases e) simp_all
qed simp

lemma pace_probe: "pace (probe_backend b reply w) = pace w"
  by (simp add: probe_backend_def pace_effects Let_def split: option.split prod.split) (simp add: pace_def)

lemma pace_exec: "\<not> reconfigures a \<Longrightarrow> pace (exec a w) = pace w"
  by (cases a)
    (simp_all add: pace.routing pace_probe late_probe_def pace_effects swappable_RecordSuccess_def swappable_RecordFailure_def
      receive_gossip_def gossip_round_def cluster_metrics_tick_def Let_def split: option.split prod.split)

lemma paced_rebuild:
  assumes "paced w" "paces cfg"
  shows "paced (rebuild cfg w)"
proof (cases "buildable cfg w")
  case True
  then obtain bal where new: "New_Balancer (Strategy (cBalancer cfg)) (new_entries cfg w) = Ok bal"
    by (auto simp: buildable_def)
  show ?thesis
    using assms rebuild_published(6-8) [OF new]
    by (simp add: paced_def pace_def paces_def NewScheduler_def scheduler_config_def)
qed (simp add: rebuild_not_buildable assms)

lemma paced_settings:
  assumes "paced w"
  shows "paces (snap_cfg (rt_snapshot w))" "list_all paces (rt_loaded w)"
    and "paced (w\<lparr>rt_discovered := us\<rparr>)"
    and "paces (snap_cfg s) \<Longrightarrow> paced (w\<lparr>rt_snapshot := s\<rparr>)"
    and "list_all paces l \<Longrightarrow> paced (w\<lparr>rt_loaded := l\<rparr>)"
  using assms by (simp_all add: paced_def pace_def)

lemma paces_reload:
  assumes "documents_short m" "paces (snap_cfg s)"
  shows "paces (snap_cfg (snd (Snapshot_Reload m path s)))"
  using Load_short [OF assms(1)] Defaults_periods(1) assms(2)
  by (auto simp: Snapshot_Reload_def paces_def Let_def split: go.split option.split)

lemma paced_reload:
  assumes "paced w" "documents_short m"
  shows "paced (reload_event m path w)"
proof -
  obtain err s' where r: "Snapshot_Reload m path (rt_snapshot w) = (err, s')" by fastforce
  have "paces (snap_cfg s')" using paces_reload [OF assms(2) paced_settings(1) [OF assms(1)], of path] r by simp
  with paced_settings(4) [OF assms(1) this] show ?thesis
    by (cases err) (simp_all add: reload_event_def r OnConfigReload_def Snapshot_Load_def paced_rebuild)
qed

lemma paced_steps:
  assumes "paced w"
  shows "paced (OnDiscovery urls w)" "paced (discovery_noted urls w)"
    and "documents_short m \<Longrightarrow> paced (snapshot_stored m path w)"
    and "paced (config_loaded w)" "paced (loaded_rebuild i w)"
proof -
  note p = paced_settings [OF assms]
  show "paced (OnDiscovery urls w)"
    using assms p(1) paced_rebuild [OF p(3)] by (simp add: OnDiscovery_def Let_def Snapshot_Load_def)
  show "paced (discovery_noted urls w)" by (simp add: discovery_noted_def assms p(3))
  show "documents_short m \<Longrightarrow> paced (snapshot_stored m path w)"
    by (simp add: snapshot_stored_def p(1,4) paces_reload)
  show "paced (config_loaded w)" by (simp add: config_loaded_def Snapshot_Load_def p(1,2,5))
  have "list_all paces (take i (rt_loaded w) @ drop (Suc i) (rt_loaded w))"
    using p(2) by (auto simp: list_all_iff dest: in_set_takeD in_set_dropD)
  from paced_rebuild [OF p(5) [OF this]] p(2) show "paced (loaded_rebuild i w)"
    by (simp add: loaded_rebuild_def assms list_all_length)
qed

lemma paced_exec:
  assumes "paced w" "reload_short a"
  shows "paced (exec a w)"
proof (cases "reconfigures a")
  case False
  from pace_exec [OF this] assms(1) show ?thesis by (simp add: paced_def)
next
  case True
  with assms show ?thesis by (cases a) (simp_all add: paced_reload paced_steps)
qed

lemma paced_run: "paced w \<Longrightarrow> list_all reload_short ops \<Longrightarrow> paced (fold exec ops w)"
  by (induction ops arbitrary: w) (simp_all add: paced_exec)

lemma paced_probes: "paced w \<Longrightarrow> rt_sched w = Some (s, probes) \<Longrightarrow> list_all (\<lambda>(u, t). t \<noteq> Panic) (Scheduler_Run s)"
  by (simp add: paced_def pace_def Scheduler_Run_def list_all_iff period_ticks)

section \<open>The first tickers\<close>

lemma prepare_periods:
  assumes "documents_short m" "prepare m path = Ok cfg"
  shows "period_ok (hc_IntervalSec (cHealth cfg))"
    and "cl_Enabled (cCluster cfg) \<Longrightarrow> period_ok (cl_GossipSec (cCluster cfg))"
  using assms(2) Load_short [OF assms(1)] Defaults_periods
  by (auto simp: prepare_def Let_def split: go.splits option.splits)

lemma start_provider_ticks:
  assumes "start_provider cfg = Ok (Some p)" "Provider_ticker p = Some t"
  shows "t \<noteq> Panic"
  using assms
  by (auto simp: start_provider_def NewProvider_def Provider_ticker_def NewDNSProvider_def NewFileProvider_def
      NewTicker_def Let_def split: if_splits go.splits)

lemma start_cluster_ticks:
  assumes "start_cluster m net path cfg = Ok (Some ns)" "documents_short m" "prepare m path = Ok cfg"
  shows "gossip_ticker (ns_node ns) \<noteq> Panic"
proof -
  have "cl_Enabled (cCluster cfg)" "GossipSec (ns_node ns) = cl_GossipSec (cCluster cfg)"
    using assms(1) prepare_periods(2) [OF assms(2,3)]
    by (auto simp: start_cluster_def Node_Start_def NewNode_def Node_SetConfigHash_def period_ok_def Let_def split: if_splits)
  with prepare_periods(2) [OF assms(2,3)] show ?thesis by (simp add: gossip_ticker_def period_ticks)
qed

lemma rebuild_node: "rt_node (rebuild cfg w) = rt_node w"
  using rebuild_published(4) [of cfg w] rebuild_not_buildable [of cfg w]
  by (cases "buildable cfg w") (auto simp: buildable_def)

lemma StartDiscovery_frame:
  "rt_node (StartDiscovery src p w) = rt_node w" "rt_loaded (StartDiscovery src p w) = rt_loaded w"
  by (simp_all add: StartDiscovery_def split: go.split)

text \<open>What the components of a started server were built from.\<close>

lemma startCommand_Ok:
  assumes "startCommand m net configPath = Ok s"
  obtains cfg path where "prepare m path = Ok cfg" "start_cluster m net path cfg = Ok (run_node s)"
    "start_provider cfg = Ok (run_provider s)" "rt_node (run_world s) = map_option ns_node (run_node s)"
    "\<exists>w. run_world s = rebuild cfg w \<and> pace w = (None, [cfg])"
proof -
  obtain cfg where cfg: "prepare m (ResolveConfigPath (environment m) configPath) = Ok cfg"
    using assms by (auto simp: startCommand_def Let_def split: go.splits)
  obtain node provider where np: "start_cluster m net (ResolveConfigPath (environment m) configPath) cfg = Ok node"
    "start_provider cfg = Ok provider"
    using assms cfg by (auto simp: startCommand_def Let_def split: go.splits)
  let ?w0 = "newRuntime (NewSnapshot cfg) (Some New_MRegistry) (map_option ns_node node)"
  let ?w1 = "case provider of None \<Rightarrow> ?w0 | Some p \<Rightarrow> StartDiscovery (net_sources net) p ?w0"
  have s: "run_node s = node" "run_provider s = provider" "run_world s = rebuild cfg ?w1"
    using assms cfg np by (auto simp: startCommand_def Let_def)
  have "rt_node ?w1 = map_option ns_node node" "pace ?w1 = (None, [cfg])"
    by (simp_all add: pace_def StartDiscovery_eqs StartDiscovery_frame newRuntime_def NewSnapshot_def split: option.split)
  with that [OF cfg] np s show ?thesis by (auto simp: rebuild_node)
qed

section \<open>Properties\<close>

text \<open>
  C40: no goroutine dies on its ticker. When the configuration documents ask for periods of at most 9223372036
  seconds, every ticker created at start (gossip, discovery, one per probe, configuration polling, cluster
  gauges) has a positive period, and so has the ticker of every probe started later, by any reload or
  discovery in any interleaving. Zero and negative settings are covered: the defaults replace them.
\<close>

theorem tickers_start:
  assumes "startCommand m net configPath = Ok s" and "documents_short m" and "watchSecs \<le> longest_period"
    and "list_all reload_short ops"
  shows "list_all (\<lambda>t. t \<noteq> Panic) (start_tickers watchSecs s)
     \<and> (\<forall>sch probes. rt_sched (fold exec ops (run_world s)) = Some (sch, probes)
           \<longrightarrow> list_all (\<lambda>(u, t). t \<noteq> Panic) (Scheduler_Run sch))"
proof -
  obtain cfg path where st: "prepare m path = Ok cfg" "start_cluster m net path cfg = Ok (run_node s)"
    "start_provider cfg = Ok (run_provider s)" "rt_node (run_world s) = map_option ns_node (run_node s)"
    and w: "\<exists>w. run_world s = rebuild cfg w \<and> pace w = (None, [cfg])"
    using startCommand_Ok [OF assms(1)] by blast
  obtain v where v: "run_world s = rebuild cfg v" "pace v = (None, [cfg])" using w by blast
  have "paces cfg" unfolding paces_def by (rule prepare_periods [OF assms(2) st(1)])
  with paced_rebuild [of v cfg] v have paced: "paced (run_world s)" by (simp add: paced_def [of v])
  have gossip: "gossip_ticker (ns_node ns) \<noteq> Panic" if "run_node s = Some ns" for ns
    using start_cluster_ticks [OF _ assms(2) st(1)] st(2) that by simp
  have "StartClusterMetrics (run_world s) = Some t \<Longrightarrow> t \<noteq> Panic" for t
    using gossip st(4) by (auto simp: StartClusterMetrics_def gossip_ticker_def split: if_splits)
  moreover have "run_provider s = Some p \<Longrightarrow> Provider_ticker p = Some t \<Longrightarrow> t \<noteq> Panic" for p t
    using start_provider_ticks st(3) by simp
  moreover have "poll_ticker watchSecs = Some t \<Longrightarrow> t \<noteq> Panic" for t
    using assms(3) by (auto simp: poll_ticker_def period_ticks period_ok_def split: if_splits)
  moreover have "rt_sched (run_world s) = Some (sch, pr) \<Longrightarrow> list_all (\<lambda>t. t \<noteq> Panic) (map snd (Scheduler_Run sch))" for sch pr
    using paced_probes [OF paced] by (fastforce simp: list_all_iff)
  ultimately have "list_all (\<lambda>t. t \<noteq> Panic) (start_tickers watchSecs s)"
    using gossip by (auto simp: start_tickers_def split: option.split)
  with paced_probes [OF paced_run [OF paced assms(4)]] show ?thesis by blast
qed

theorem tickers_start_witness:
  "\<exists>s. startCommand demo_machine demo_net '''' = Ok s \<and> list_all (\<lambda>t. t \<noteq> Panic) (start_tickers 30 s)"
proof -
  obtain s where s: "startCommand demo_machine demo_net '''' = Ok s" using demo_start_Ok by blast
  have "documents_short demo_machine"
    by (simp add: documents_short_def demo_machine_def short_periods_def longest_period_def zero_Config_def)
  from tickers_start [OF s this, of 30 "[]"] s show ?thesis by (auto simp: longest_period_def)
qed

text \<open>
  One second more and the product wraps to a negative period: whatever else the configuration says, every
  probe of the rebuilt engine panics. Neither \<open>Validate\<close> nor the schema bounds the setting from above.
\<close>

theorem long_interval_crashes:
  assumes "hc_Enabled (cHealth cfg)" "hc_IntervalSec (cHealth cfg) = longest_period + 1" "buildable cfg w"
  shows "\<exists>sch probes. rt_sched (rebuild cfg w) = Some (sch, probes) \<and> Scheduler_Run sch \<noteq> []
     \<and> list_all (\<lambda>(u, t). t = Panic) (Scheduler_Run sch)"
proof -
  obtain bal where new: "New_Balancer (Strategy (cBalancer cfg)) (new_entries cfg w) = Ok bal"
    using assms(3) by (auto simp: buildable_def)
  have "seconds (longest_period + 1) < 0"
    by (simp add: longest_period_def seconds_eq signed_take_bit_eq_take_bit_minus take_bit_eq_mod bit_iff_odd)
  then show ?thesis
    using assms rebuild_published(7) [OF new] New_Balancer_nonempty [OF new]
    by (auto simp: Scheduler_Run_def NewScheduler_def scheduler_config_def NewTicker_def list_all_iff)
qed

end
