(* ===== verification/Interleaving.thy ===== *)
theory Interleaving
  imports Serving
begin

text \<open>
  What the order of steps can do. The reload and the discovery callback each take several steps
  (\<^verbatim>\<open>OnDiscovery\<close> and \<^verbatim>\<open>OnConfigReload\<close> of \<^verbatim>\<open>cli/engine.go\<close>, \<open>reload\<close> of \<^verbatim>\<open>internal/config/snapshot.go\<close>), and a
  probe can outlive its scheduler. When the callbacks do not overlap, the pool always follows the settings;
  when they do, an old configuration can be published last, and a late probe can condemn a backend that comes back.
\<close>

section \<open>Callbacks and their steps\<close>

lemma new_entries_cong: "rt_discovered w' = rt_discovered w \<Longrightarrow> new_entries cfg w' = new_entries cfg w"
  by (simp add: new_entries_def)

lemma buildable_cong: "rt_discovered w' = rt_discovered w \<Longrightarrow> buildable cfg w' = buildable cfg w"
  by (simp add: buildable_def new_entries_def)


lemma Reload_failed: "Snapshot_Reload m path s = (Some e, s') \<Longrightarrow> s' = s"
  by (auto simp: Snapshot_Reload_def Let_def split: go.splits option.splits)

section \<open>The pool and the settings\<close>

lemma rebuild_pool: "buildable cfg w \<Longrightarrow> swappable_Backends (rebuild cfg w) = map URL (new_entries cfg w)"
  using rebuild_published(1) [of cfg w] by (auto simp: buildable_def swappable_Backends_def)

interpretation pool: runtime_kept "\<lambda>v. swappable_Backends v = us" for us
proof
  fix now w u ok w'
  assume "swappable_Backends w = us" "engineHealthChecker_IsAvailable now w u = (ok, w')"
  then show "swappable_Backends w' = us"
    using avail_frame(8) [of now w u ok w'] by (cases "rt_sw w"; cases "rt_sw w'") (simp_all add: swappable_Backends_def)
qed (auto simp: swappable_Backends_def set_bal_def split: option.splits)

lemma pool_cong: "rt_sw w' = rt_sw w \<Longrightarrow> swappable_Backends w' = swappable_Backends w"
  by (simp add: swappable_Backends_def)

lemma pool_quiet [simp]:
  "swappable_Backends (set_breaker r w) = swappable_Backends w" "swappable_Backends (upd_reg f w) = swappable_Backends w"
  "swappable_Backends (fold breakerLog cs w) = swappable_Backends w" "swappable_Backends (makeProxyLogger le w) = swappable_Backends w"
  "swappable_Backends (fold apply_effect effs w) = swappable_Backends w" "swappable_Backends (w\<lparr>rt_node := n\<rparr>) = swappable_Backends w"
  "swappable_Backends (w\<lparr>rt_sched := sc\<rparr>) = swappable_Backends w" "swappable_Backends (w\<lparr>rt_late := la\<rparr>) = swappable_Backends w"
  "swappable_Backends (w\<lparr>rt_snapshot := s\<rparr>) = swappable_Backends w" "swappable_Backends (w\<lparr>rt_loaded := l\<rparr>) = swappable_Backends w"
  "swappable_Backends (w\<lparr>rt_discovered := us\<rparr>) = swappable_Backends w"
  by (simp_all add: swappable_Backends_def set_breaker_def sw_effects split: option.split)

lemma pool_exec: "\<not> rebuilds a \<Longrightarrow> swappable_Backends (exec a w) = swappable_Backends w"
  by (cases a)
    (simp_all add: pool.routing swappable_RecordSuccess_def swappable_RecordFailure_def probe_backend_def late_probe_def
      receive_gossip_def gossip_round_def cluster_metrics_tick_def discovery_noted_def snapshot_stored_def
      config_loaded_def Let_def split: option.split prod.split)

text \<open>The published pool is the one the current configuration and the latest discovery ask for, if they can be built.\<close>

definition in_step :: "world \<Rightarrow> bool" where
  "in_step w =
     (buildable (snap_cfg (rt_snapshot w)) w
      \<longrightarrow> swappable_Backends w = map URL (new_entries (snap_cfg (rt_snapshot w)) w))"

lemma in_step_rebuild: "in_step (rebuild (snap_cfg (rt_snapshot w)) w)"
  unfolding in_step_def
  using rebuild_pool [of "snap_cfg (rt_snapshot w)" w]
    buildable_cong [of "rebuild (snap_cfg (rt_snapshot w)) w" w] new_entries_cong [of "rebuild (snap_cfg (rt_snapshot w)) w" w]
  by simp

text \<open>Operations that are not single steps of a callback.\<close>

fun undisturbed :: "operation \<Rightarrow> bool" where
  "undisturbed (OpDiscovered urls) = False"
| "undisturbed (OpStore m path) = False"
| "undisturbed OpLoad = False"
| "undisturbed (OpRebuild i) = False"
| "undisturbed a = True"

lemma in_step_exec:
  assumes "in_step w" "undisturbed a"
  shows "in_step (exec a w)"
proof (cases "rebuilds a")
  case True
  have "in_step (OnDiscovery urls w)" for urls
    using assms(1) in_step_rebuild [of "w\<lparr>rt_discovered := urls\<rparr>"] by (simp add: OnDiscovery_def Let_def Snapshot_Load_def)
  moreover have "in_step (reload_event m path w)" for m path
  proof -
    obtain err s' where r: "Snapshot_Reload m path (rt_snapshot w) = (err, s')" by fastforce
    show ?thesis
      using assms(1) r Reload_failed [of m path "rt_snapshot w"] in_step_rebuild [of "w\<lparr>rt_snapshot := s'\<rparr>"]
      by (cases err) (simp_all add: reload_event_def OnConfigReload_def Snapshot_Load_def)
  qed
  ultimately show ?thesis using True assms(2) by (cases a) simp_all
next
  case False
  then have "\<not> reconfigures a" using assms(2) by (cases a) simp_all
  from settings_exec [OF this, of w] have s: "rt_snapshot (exec a w) = rt_snapshot w" "rt_discovered (exec a w) = rt_discovered w"
    by (simp_all add: settings_def)
  show ?thesis
    using assms(1) pool_exec [OF False, of w] buildable_cong [OF s(2)] new_entries_cong [OF s(2)]
    by (simp add: in_step_def s(1))
qed

lemma in_step_run: "in_step w \<Longrightarrow> list_all undisturbed ops \<Longrightarrow> in_step (fold exec ops w)"
  by (induction ops arbitrary: w) (simp_all add: in_step_exec)

lemma pool_run: "list_all (\<lambda>a. \<not> rebuilds a) ops \<Longrightarrow> swappable_Backends (fold exec ops w) = swappable_Backends w"
  by (induction ops arbitrary: w) (simp_all add: pool_exec)

section \<open>Properties\<close>


text \<open>
  C8: the pool follows the settings. After the first rebuild, through any interleaving of requests, reports,
  probes, gossip, reloads and discovery results in which the callbacks do not overlap each other, the published
  pool consists of the hosts of the current configuration followed by the latest discovered backends, without
  empty and repeated entries, whenever these settings can be built at all.
\<close>

theorem pool_follows_settings:
  fixes w0 ops
  assumes "list_all undisturbed ops"
  defines "w \<equiv> fold exec ops (rebuild (snap_cfg (rt_snapshot w0)) w0)"
  assumes "buildable (snap_cfg (rt_snapshot w)) w"
  shows "swappable_Backends w = nub {''''} (map Host (cBackends (snap_cfg (rt_snapshot w))) @ rt_discovered w)"
proof -
  have "in_step w" unfolding w_def by (rule in_step_run [OF in_step_rebuild assms(1)])
  with assms(3) show ?thesis by (simp add: in_step_def new_entries_def mergeEntries_pool)
qed

theorem pool_follows_settings_witness:
  "swappable_Backends (fold exec [OpDiscovery [''http://b''], OpReadyz 3] demo_world) = [''http://a'', ''http://b'']"
proof -
  let ?ops = "[OpDiscovery [''http://b''], OpReadyz 3]"
  have s: "snap_cfg (rt_snapshot demo_start) = demo_config" by (simp add: demo_start_def newRuntime_def NewSnapshot_def)
  have d: "settings (fold exec ?ops demo_world) = (NewSnapshot demo_config, [''http://b''], [])"
    using settings_exec [of "OpReadyz 3"]
    by (simp add: OnDiscovery_def SameList_iff settings_def demo_world_def demo_start_def newRuntime_def Let_def)
  then have "snap_cfg (rt_snapshot (fold exec ?ops demo_world)) = demo_config" "rt_discovered (fold exec ?ops demo_world) = [''http://b'']"
    by (simp_all add: settings_def NewSnapshot_def)
  with pool_follows_settings [of ?ops demo_start] demo_buildable s show ?thesis
    by (simp add: demo_world_def demo_config_fields)
qed

text \<open>
  C37: overlapping callbacks can publish an old configuration last. Discovery notes a new result and loads the
  configuration; before it gets the lock, a reload stores a new configuration and applies it; then the discovery
  callback rebuilds from what it loaded. The new configuration is the one in force, but the proxy routes to the
  hosts of the old one, and goes on doing so until the next rebuild, whatever else happens.
\<close>

theorem stale_config_published:
  fixes w m path urls later
  defines "w' \<equiv> fold exec [OpDiscovered urls, OpLoad, OpReload m path, OpRebuild (length (rt_loaded w))] w"
  assumes "urls \<noteq> rt_discovered w" and "Snapshot_Reload m path (rt_snapshot w) = (None, s')"
    and "buildable (snap_cfg (rt_snapshot w)) (w\<lparr>rt_discovered := urls\<rparr>)"
    and "list_all (\<lambda>a. \<not> rebuilds a) later"
  shows "rt_snapshot w' = s'
     \<and> swappable_Backends (fold exec later w') = nub {''''} (map Host (cBackends (snap_cfg (rt_snapshot w))) @ urls)"
proof -
  let ?old = "snap_cfg (rt_snapshot w)"
  let ?v = "rebuild (snap_cfg s') (w\<lparr>rt_discovered := urls, rt_loaded := rt_loaded w @ [?old], rt_snapshot := s'\<rparr>)"
  have w': "w' = rebuild ?old (?v\<lparr>rt_loaded := rt_loaded w\<rparr>)"
    using assms(2,3)
    by (simp add: w'_def discovery_noted_def SameList_iff config_loaded_def reload_event_def OnConfigReload_def
        Snapshot_Load_def loaded_rebuild_def)
  have d: "rt_discovered (?v\<lparr>rt_loaded := rt_loaded w\<rparr>) = rt_discovered (w\<lparr>rt_discovered := urls\<rparr>)" by simp
  have "swappable_Backends w' = map URL (new_entries ?old (w\<lparr>rt_discovered := urls\<rparr>))"
    unfolding w' using rebuild_pool [of ?old] buildable_cong [OF d] new_entries_cong [OF d] assms(4) by simp
  with pool_run [OF assms(5)] show ?thesis by (simp add: new_entries_def mergeEntries_pool) (simp add: w')
qed

definition demo_reload :: machine where
  "demo_reload = \<lparr>read_file = (\<lambda>p. Some ''x''), yaml_Unmarshal = (\<lambda>s. Some (zero_Config\<lparr>cBackends := [\<lparr>Host = ''http://c'', bk_Weight = 0\<rparr>]\<rparr>)),
     environment = Map.empty, hostname = None\<rparr>"

lemma demo_reload_Ok:
  "\<exists>s'. Snapshot_Reload demo_reload path s = (None, s') \<and> map Host (cBackends (snap_cfg s')) = [''http://c'']"
proof -
  have "url_Parse ''http://c'' = Some ''http''" by code_simp
  then have "Validate (zero_Config\<lparr>cBackends := [\<lparr>Host = ''http://c'', bk_Weight = 0\<rparr>]\<rparr>) = None"
    unfolding Validate_iff by (simp add: valid_config_def zero_Config_def valid_backend_def)
  then show ?thesis
    by (simp add: Snapshot_Reload_def demo_reload_def Load_def ApplyEnvOverrides_def getenv_def Let_def Defaults_def)
qed

theorem stale_config_published_witness:
  "\<exists>w'. w' = fold exec [OpDiscovered [''http://b''], OpLoad, OpReload demo_reload ''c.yml'', OpRebuild 0] demo_world
     \<and> map Host (cBackends (snap_cfg (rt_snapshot w'))) = [''http://c''] \<and> swappable_Backends w' = [''http://a'', ''http://b'']"
proof -
  obtain s' where s': "Snapshot_Reload demo_reload ''c.yml'' (rt_snapshot demo_world) = (None, s')"
    "map Host (cBackends (snap_cfg s')) = [''http://c'']"
    using demo_reload_Ok [of "''c.yml''" "rt_snapshot demo_world"] by (elim exE conjE)
  have w: "snap_cfg (rt_snapshot demo_world) = demo_config" "rt_loaded demo_world = []" "rt_discovered demo_world = []"
    by (simp_all add: demo_world_def demo_start_def newRuntime_def NewSnapshot_def)
  from stale_config_published [OF _ s'(1), of "[''http://b'']" "[]"] demo_buildable w s'(2)
  show ?thesis by (simp add: demo_config_fields)
qed

text \<open>
  A probe that outlives its scheduler can condemn a backend that comes back. The backend was removed while its
  probe was waiting; the probe then fails, and its verdict enters the health map although the backend is no longer
  in the pool. When discovery brings the backend back before another rebuild, the verdict is kept, the new probe
  starts from healthy and never corrects it: the backend is refused although it answers every probe.
\<close>

theorem late_verdict_returns:
  fixes w urls ops i
  assumes "i < length (rt_late w)" "rt_late w ! i = (c, u, st)" "currentHealthy st" "UnhealthyThreshold c \<le> consecutiveFail st + 1"
    and "urls \<noteq> rt_discovered w" "u \<in> set urls" "u \<noteq> ''''"
    and "buildable (snap_cfg (rt_snapshot w)) (w\<lparr>rt_discovered := urls\<rparr>)" and "list_all (good_for u) ops"
  shows "\<not> ready now (fold exec ([OpLateProbe i None, OpDiscovery urls] @ ops) w) u"
proof -
  let ?v = "late_probe i None w"
  have t: "\<exists>st' r. probe_tick c u False st = (st', [WriteState u False, LogState u ''unhealthy'' r])"
    using assms(3,4) by (simp add: probe_tick_def Let_def)
  have v: "g_health ?v u = Some False" "rt_snapshot ?v = rt_snapshot w" "rt_discovered ?v = rt_discovered w"
    using t assms(1,2) by (auto simp: late_probe_def Scheduler_check_def stateWriter_def setHealth_def Let_def)
  let ?v' = "?v\<lparr>rt_discovered := urls\<rparr>"
  have b: "buildable (snap_cfg (rt_snapshot w)) ?v'" using assms(8) buildable_cong [of ?v' "w\<lparr>rt_discovered := urls\<rparr>"] by simp
  have "u \<in> set (map URL (new_entries (snap_cfg (rt_snapshot w)) ?v'))" unfolding set_new_entries using assms(6,7) by simp
  with rebuild_forgets [OF b] v(1) have "down_and_forgotten u (rebuild (snap_cfg (rt_snapshot w)) ?v')" by simp
  moreover have "exec (OpDiscovery urls) ?v = rebuild (snap_cfg (rt_snapshot w)) ?v'"
    using assms(5) v by (simp add: OnDiscovery_def SameList_iff Snapshot_Load_def Let_def)
  ultimately show ?thesis using down_refused [OF down_run [OF assms(9)]] by simp
qed

end
