(* ===== verification/Spec2Isabelle.thy ===== *)
theory Spec2Isabelle
  imports Background Interleaving
begin

text \<open>
  \<^bold>\<open>Haribon, an HTTP load balancer: a verification development.\<close>

  Haribon is one Go process. The command line (\<^verbatim>\<open>cli/main.go\<close>) loads and validates a YAML configuration,
  builds a runtime (\<^verbatim>\<open>cli/engine.go\<close>) and serves \<^verbatim>\<open>/healthz\<close>, \<^verbatim>\<open>/readyz\<close>, \<^verbatim>\<open>/metrics\<close> and, for every other
  path, a retrying reverse proxy (\<^verbatim>\<open>internal/proxy\<close>). The proxy asks the runtime for a backend; the runtime
  holds the current \<^emph>\<open>engine\<close>, a balancer (\<^verbatim>\<open>internal/balancer\<close>) with a registry of circuit breakers
  (\<^verbatim>\<open>internal/health/breaker.go\<close>), and accepts a backend when the health map, the cluster node and the breaker
  all agree. Beside the requests, goroutines probe the backends (\<^verbatim>\<open>internal/health/scheduler.go\<close>), exchange
  findings with other replicas by UDP (\<^verbatim>\<open>internal/cluster\<close>), poll DNS or a file for backends
  (\<^verbatim>\<open>internal/discover\<close>), reload the configuration (\<^verbatim>\<open>internal/config/snapshot.go\<close>) and ship log lines
  (\<^verbatim>\<open>internal/logging\<close>). A reload or a discovery result rebuilds the engine and publishes it atomically.

  \<^bold>\<open>Theories and sources.\<close> Definitions keep the Go names, a method \<open>T.M\<close> being \<open>T_M\<close>.
  \<^item> \<open>Prelude\<close>: types, the outcome type \<open>go\<close> (a value, a returned error, a panic), Go's integer conversions,
    durations, decimal printing, the \<^verbatim>\<open>strings\<close> functions used, and shared lemmas.
  \<^item> \<open>NetHttp\<close>: what the sources use of \<^verbatim>\<open>net\<close>, \<^verbatim>\<open>net/http\<close> and \<^verbatim>\<open>net/url\<close>: host and port, canonical headers,
    the URL parser as far as validity, scheme and host go.
  \<^item> \<open>Metrics\<close>: \<^verbatim>\<open>internal/metrics/metrics.go\<close>, counters and gauges as 64-bit words, registry, rendering.
  \<^item> \<open>Balancer\<close>: \<^verbatim>\<open>internal/balancer/balancer.go\<close>, the five strategies, the factory, counters and their
    carry-over. A health checker is a state-passing function, because asking a breaker changes it.
  \<^item> \<open>Breaker\<close>, \<open>HealthProbe\<close>: \<^verbatim>\<open>internal/health\<close>: the registry and its three-state machine; the probe endpoints
    and the probe loop with its thresholds.
  \<^item> \<open>Cluster\<close>: \<^verbatim>\<open>internal/cluster/cluster.go\<close>, node state, local findings, gossip rounds, merging and expiry.
  \<^item> \<open>Config\<close>, \<open>Discover\<close>: \<^verbatim>\<open>internal/config/config.go\<close>, \<^verbatim>\<open>snapshot.go\<close> and \<^verbatim>\<open>internal/discover/discover.go\<close>.
  \<^item> \<open>Schema\<close>: \<^verbatim>\<open>internal/config/schema.go\<close>, the JSON-schema validator.
  \<^item> \<open>Msgpack\<close>, \<open>Logging\<close>: \<^verbatim>\<open>internal/logging/msgpack.go\<close> and \<^verbatim>\<open>exporter.go\<close>: the encoder, the batched queue
    and the exporters.
  \<^item> \<open>Proxy\<close>: \<^verbatim>\<open>internal/proxy/handler.go\<close>, header rules, the attempt loop and its two endings. A request
    returns the reply, the state and the list of calls it made.
  \<^item> \<open>Engine\<close>: \<^verbatim>\<open>cli/engine.go\<close> and the process-wide state of \<^verbatim>\<open>cli/main.go\<close> as one record \<open>world\<close>; picks, reports,
    rebuilds, the reload and discovery callbacks, probe ticks, gossip and the cluster gauges as functions on it.
  \<^item> \<open>Rebuild\<close>, \<open>Serving\<close>: no new code; the operations of all goroutines as one datatype \<open>operation\<close> with its
    interpreter \<open>exec\<close>, the invariant of the shared state, what a rebuild keeps, and the proxy run on the runtime.
  \<^item> \<open>Cli\<close>: the rest of \<^verbatim>\<open>cli/main.go\<close>: log writing, the metrics endpoint, the legacy handler, the commands, the
    routes, start and shutdown.
  \<^item> \<open>Background\<close>: how the goroutines start their tickers.
  \<^item> \<open>Interleaving\<close>: no new code; the reload and discovery callbacks as separate steps, and what their order and a
    probe that outlives its scheduler can do.

  \<^bold>\<open>Interfaces.\<close> The locales state what one component relies on in another. \<open>checker\<close>, \<open>local_checker\<close> and
  \<open>drawing_checker\<close> are what a balancer needs of the health checker (and of the random source); they give, by a
  sublocale, \<open>balancer_contract\<close>: a pick is a member of the pool that the checker accepts, and a failure means that
  it accepts none. They are interpreted on the breaker registry (\<open>registry\<close>) and on the checker of the engine
  (\<open>engine\<close>). \<open>ask_state\<close> and \<open>ask_kept\<close> lift a property kept by one question to a whole pick; \<open>runtime_kept\<close>
  lifts a property of the world kept by questions and balancer updates to all routing operations; it is
  interpreted on the settings, the published pool, a stuck breaker, a forgotten probe, a request counter and the
  probe period. \<open>proxy_host\<close> is what the proxy needs of its balancer and breaker for a property to survive a whole
  request; it is interpreted on the runtime with the world invariant (\<open>host\<close>) and with the trial slots of
  half-open breakers (\<open>trial\<close>).

  \<^bold>\<open>What is shown.\<close>
  \<^item> The proxy: attempts are bounded and requests with side effects sent once (C1), every pick is paid by one
    \<open>Done\<close> and one report (C2), what the reply means (C3), which headers pass (C35).
  \<^item> The runtime: its invariant in every interleaving (C4), also through the server's routes (C5); a pick succeeds
    exactly when some backend is acceptable to all three judges (C6); a rebuild publishes the merged pool and keeps
    verdicts, breakers and connection counts (C7, C27); as long as the callbacks do not overlap, the pool is the one
    the settings ask for (C8), and each callback is its own steps run in a row (C9); starting up (C10); trial slots
    of half-open breakers belong to requests in flight (C11); tickers (C40).
  \<^item> The strategies: least load (C15), rotation (C16), exact weighted shares (C17), the factory (C18), client
    pinning (C19). The breaker: threshold (C20), one trial (C21). Probe hysteresis (C22).
  \<^item> Cluster: the node invariant (C23), propagation and expiry of findings (C24).
  \<^item> Configuration: the running configuration stays valid (C25), validation and defaults (C26), environment
    references (C31), discovery reports exactly the changes (C32), the schema validator against the declarative
    relations \<open>conforms\<close> and \<open>visits\<close> (C28, C29), agreement of the commands (C30).
  \<^item> Observability: no log entry is lost uncounted (C12), closing flushes (C13) and terminates (C14), a line reaches
    every configured sink (C36); the forward message (C33) and the metrics page (C34) can be read back.
  \<^item> Plain theorems: \<open>carry_over_keeps_verdict\<close> (a breaker keeps its state through a rebuild), \<open>valid_config_builds\<close>
    (a valid configuration has an engine), \<open>active_conns_current\<close> (the connection gauges at a scrape),
    \<open>drift_counted_and_printed\<close> (differing configurations among replicas), \<open>forward_batch_decodes\<close> and
    \<open>bulk_body_lines\<close> (what Fluent Bit and Elasticsearch receive for a whole batch).
  \<^item> Defects that are consequences of the code as written: a configuration that was replaced can be published last
    (C37), a readiness probe can take a backend out of service for good (C38), and a backend that recovers during a
    rebuild stays out (C39). Further ones are plain theorems: \<open>late_verdict_returns\<close>, \<open>retries_overflow\<close>,
    \<open>requests_counted_twice\<close>, \<open>half_open_unreported_is_stuck\<close>, \<open>leastConn_starves\<close>, \<open>roundRobin_panics_past_2_63\<close>,
    \<open>schema_blind_spots\<close>, \<open>equal_terms_never_converge\<close>, \<open>oversized_gossip_lost\<close>, \<open>proxy_503_reported_as_success\<close>,
    \<open>proxy_panics_on_low_status\<close>, \<open>long_interval_crashes\<close>.

  \<^bold>\<open>Concurrency.\<close> Each operation that the code runs under a lock, or as one atomic access, is one step; requests and
  goroutines interleave as lists of steps. During a send and a back-off the proxy's environment may apply any
  operations to the world. The reload and discovery callbacks are available whole and as their steps: storing a
  configuration, noting the discovered backends, loading the configuration, and rebuilding with it, so that two
  callbacks may overlap. A probe tick is one step, taken when its answer arrives; the probes of a stopped scheduler
  stay in \<open>rt_late\<close> and may still report. A pick is one step, although its questions to the judges are separate
  critical sections; a rebuild is one step, placed at its carry-over, and a call that reaches the engine it replaced
  is \<open>OpOldGeneration\<close>. \<open>select\<close> and the batch goroutine are the inductive relation \<open>batch_run\<close>.

  \<^bold>\<open>Bounds and termination.\<close> No definition of the program takes fuel: loops are structural recursion, or have a
  measure (\<open>attempt_loop\<close> the attempts left, \<open>expandEnv\<close> the text left, \<open>normalizeYAML\<close> and \<open>validateNode\<close> the size
  of the value). Loops over channels consume a list of events, the ones received so far. Only \<open>unpack\<close>, a decoder
  written to state C33, takes fuel, and C33 provides enough. Pools are assumed below \<open>2^32\<close> entries (\<open>2^31\<close> from
  each source), where the conversions of indices and hashes are exact, and rotation counters below \<open>2^63\<close>
  (\<open>Balancer_fits\<close>) where picks are claimed not to panic. Gossip terms, metrics and MessagePack integers are words;
  settings in seconds become durations by a product that wraps at 64 bits (\<open>seconds\<close>), and \<open>1 + max_retries\<close> is a
  sum that wraps (\<open>go_int\<close>). Other counters are integers: failure, connection and attempt counts are taken not to
  reach \<open>2^63\<close>.

  \<^bold>\<open>Arguments of the model.\<close> Code outside the repository's own sources and the standard library's pure functions is passed in:
  the YAML and JSON decoders, the file system, the environment, the resolver, SHA-256, the UDP sockets and the
  gossip codec, the HTTP client and server, the clock, the random source, the formatting verbs of \<^verbatim>\<open>fmt\<close> on
  arbitrary values, and the iteration order of Go maps.

  \<^bold>\<open>Not modelled.\<close> Flag parsing and the usage text; the listening socket and the exit codes of a failing listener;
  the lines printed with \<^verbatim>\<open>log.Printf\<close>, but for the one about differing configurations; the creation of the log directory; locks as such; the
  connection pool settings of the HTTP clients; \<open>Close\<close> of the discovery providers, which does nothing.
\<close>

end
